theory Spec2Isabelle
  imports Main "HOL-Library.Sublist"
begin

section \<open>Errors\<close>

text \<open>
  Every way in which the modelled C++ can leave a function other than by returning:
  the enforce failures of the source with their error type and message, the failures
  of the YAML conversions, and the undefined behaviour of dereferencing a null pointer,
  of indexing a vector out of range and of using a pointer to a tensor that is no longer
  there.  \<open>External\<close> is a failure raised by an operator or by a hook.
\<close>

datatype error =
    InvalidArgument string
  | PreconditionNotMet string
  | NotFound string
  | BadConversion
  | NullPointer
  | OutOfRange
  | InvalidTensorPointer
  | External string

section \<open>Patch parsing: the action dispatch of \<open>ParseOpPatches\<close>\<close>

text \<open>
  A YAML node of the yaml-cpp library, as far as \<open>ParseOpPatches\<close> looks at it:
  \<open>node[key]\<close> is the value under a key of a map (an undefined node when there is none),
  and \<open>as<std::string>()\<close> succeeds on a scalar only.
\<close>

datatype yaml =
    Undefined
  | Scalar string
  | Sequence "yaml list"
  | Mapping "(string \<times> yaml) list"

fun yaml_get :: "yaml \<Rightarrow> string \<Rightarrow> yaml" where
  "yaml_get (Mapping kvs) k = (case map_of kvs k of None \<Rightarrow> Undefined | Some v \<Rightarrow> v)"
| "yaml_get _ k = Undefined"

fun as_string :: "yaml \<Rightarrow> error + string" where
  "as_string (Scalar s) = Inr s"
| "as_string _ = Inl BadConversion"

text \<open>
  The keys of the patch object (\<open>ATTRS\<close>, \<open>OPRESULTS_ATTRS\<close>, \<open>OPRESULTS\<close> of
  \<open>schema.h\<close>) and what an action appends under one of them.
\<close>

datatype column = ATTRS | OPRESULTS_ATTRS | OPRESULTS

datatype 'j patch_entry =
    AttrEntry string 'j
  | RenameEntry string string
  | TypeEntry int 'j

text \<open>
  In C++ a string literal used as an operand of \<open>||\<close> is an array that decays to a
  pointer to its first character; that pointer is never null, so its conversion to
  \<open>bool\<close> is \<open>true\<close> whatever the literal says.
\<close>

definition literal_as_bool :: "string \<Rightarrow> bool" where
  "literal_as_bool lit = True"

text \<open>The branches of the \<open>if\<close>/\<open>else if\<close> chain, in the order of the source.\<close>

datatype branch =
    AttrBranch
  | OutputAttrBranch
  | ModifyAttrNameBranch
  | InputBranch
  | OutputBranch
  | OutputTypeBranch
  | NoBranch

text \<open>
  The third condition of the chain as the source writes it:
  \<open>action_name == "modify_attr_name" || "modify_output_attr_name"\<close>.
\<close>

definition modify_attr_name_condition :: "string \<Rightarrow> bool" where
  "modify_attr_name_condition action_name =
     (action_name = ''modify_attr_name'' \<or> literal_as_bool ''modify_output_attr_name'')"

definition dispatch :: "string \<Rightarrow> branch" where
  "dispatch action_name =
     (if action_name = ''add_attr'' \<or> action_name = ''modify_attr'' \<or>
         action_name = ''delete_attr'' then AttrBranch
      else if action_name = ''add_output_attr'' \<or> action_name = ''modify_output_attr'' \<or>
         action_name = ''delete_output_attr'' then OutputAttrBranch
      else if modify_attr_name_condition action_name then ModifyAttrNameBranch
      else if action_name = ''add_input'' \<or> action_name = ''modify_input'' \<or>
         action_name = ''delete_input'' then InputBranch
      else if action_name = ''add_output'' \<or> action_name = ''modify_output'' \<or>
         action_name = ''delete_output'' then OutputBranch
      else if action_name = ''modify_output_type'' then OutputTypeBranch
      else NoBranch)"

text \<open>
  One iteration of the loop over the actions of an operator patch: the entry the action
  appends to the patch object and the key it appends it under, or nothing.
  \<open>BuildAttrJsonPatch\<close>, \<open>BuildTypeJsonPatch\<close> and the conversion \<open>as<int>()\<close> are
  parameters.
\<close>

definition ParseAction ::
  "(yaml \<Rightarrow> error + 'j) \<Rightarrow> (yaml \<Rightarrow> error + 'j) \<Rightarrow> (yaml \<Rightarrow> error + int) \<Rightarrow>
   yaml \<Rightarrow> error + (column \<times> 'j patch_entry) option" where
  "ParseAction BuildAttrJsonPatch BuildTypeJsonPatch as_int action =
     (case as_string (yaml_get action ''action'') of
        Inl e \<Rightarrow> Inl e
      | Inr action_name \<Rightarrow>
         (case dispatch action_name of
            AttrBranch \<Rightarrow>
              (case as_string (yaml_get action ''object'') of
                 Inl e \<Rightarrow> Inl e
               | Inr attr_name \<Rightarrow>
                  (case BuildAttrJsonPatch action of
                     Inl e \<Rightarrow> Inl e
                   | Inr j \<Rightarrow> Inr (Some (ATTRS, AttrEntry attr_name j))))
          | OutputAttrBranch \<Rightarrow>
              (case as_string (yaml_get action ''object'') of
                 Inl e \<Rightarrow> Inl e
               | Inr attr_name \<Rightarrow>
                  (case BuildAttrJsonPatch action of
                     Inl e \<Rightarrow> Inl e
                   | Inr j \<Rightarrow> Inr (Some (OPRESULTS_ATTRS, AttrEntry attr_name j))))
          | ModifyAttrNameBranch \<Rightarrow>
              (case as_string (yaml_get action ''object'') of
                 Inl e \<Rightarrow> Inl e
               | Inr old_name \<Rightarrow>
                  (case as_string (yaml_get action ''default'') of
                     Inl e \<Rightarrow> Inl e
                   | Inr new_name \<Rightarrow>
                      Inr (Some (if action_name = ''modify_attr_name'' then ATTRS
                                 else OPRESULTS_ATTRS,
                                 RenameEntry old_name new_name))))
          | InputBranch \<Rightarrow> Inr None
          | OutputBranch \<Rightarrow> Inr None
          | OutputTypeBranch \<Rightarrow>
              (case as_int (yaml_get action ''object'') of
                 Inl e \<Rightarrow> Inl e
               | Inr op_id \<Rightarrow>
                  (case BuildTypeJsonPatch action of
                     Inl e \<Rightarrow> Inl e
                   | Inr j \<Rightarrow> Inr (Some (OPRESULTS, TypeEntry op_id j))))
          | NoBranch \<Rightarrow> Inr None))"

section \<open>Program descriptions and operators\<close>

text \<open>
  A program is a list of blocks; a block lists its operator descriptors and its variable
  descriptors in declaration order.  An operator descriptor has its type and its named
  lists of input and of output variable names, in the order of declaration; of a variable
  descriptor the executor reads the name, the persistence flag and the type.
\<close>

record op_desc =
  desc_type :: string
  desc_inputs :: "(string \<times> string list) list"
  desc_outputs :: "(string \<times> string list) list"

text \<open>
  Modelled from the spec: \<open>OpDesc::Input(name)\<close> and \<open>OpDesc::Output(name)\<close>, whose
  definitions the verified source files do not contain.  A descriptor has "named
  input/output variable-name lists"; asking for a name that the descriptor does not have
  is a failure (\<open>NotFound\<close>), and so is, in this model, taking element \<open>[0]\<close> of a list
  without elements (\<open>OutOfRange\<close>), which the C++ source leaves undefined.
\<close>

definition first_of :: "(string \<times> string list) list \<Rightarrow> string \<Rightarrow> error + string" where
  "first_of args name =
     (case map_of args name of
        None \<Rightarrow> Inl (NotFound name)
      | Some [] \<Rightarrow> Inl OutOfRange
      | Some (x # xs) \<Rightarrow> Inr x)"

record var_desc =
  var_name :: string
  var_persistable :: bool
  var_type :: nat

record block_desc =
  AllOps :: "op_desc list"
  AllVars :: "var_desc list"

type_synonym program_desc = "block_desc list"

text \<open>
  \<open>desc.Block(block_id)\<close> indexes the vector of blocks; an index that names no block is
  out of range.
\<close>

definition Block :: "program_desc \<Rightarrow> int \<Rightarrow> error + block_desc" where
  "Block desc block_id =
     (if 0 \<le> block_id \<and> nat block_id < length desc then Inr (desc ! nat block_id)
      else Inl OutOfRange)"

text \<open>
  A hook is a function value registered with the executor; it is named by a number here,
  and what a call of it does is a parameter of \<open>Run\<close>.  An operator instance has its
  type, the names of its outputs (\<open>OutputVars(true)\<close>), the flag set by
  \<open>SetIsCalledByExecutor\<close> and the hook lists set by \<open>SetInputHooks\<close> and
  \<open>SetOutputHooks\<close>.
\<close>

type_synonym hook = nat

record operator =
  op_type :: string
  output_vars :: "string list"
  is_called_by_executor :: bool
  op_input_hooks :: "hook list"
  op_output_hooks :: "hook list"

text \<open>
  Modelled from the spec: \<open>OpRegistry::CreateOp\<close>, whose definition the verified
  source files do not contain.  The registry "given a descriptor, produces a runnable
  operator instance", one operator object per descriptor, with the descriptor's type and
  the names of all its output lists, in order; a new operator has no hooks.
\<close>

definition CreateOp :: "op_desc \<Rightarrow> operator" where
  "CreateOp d =
     \<lparr>op_type = desc_type d, output_vars = concat (map snd (desc_outputs d)),
      is_called_by_executor = True, op_input_hooks = [], op_output_hooks = []\<rparr>"

section \<open>Scopes, variables and tensors\<close>

text \<open>
  Modelled from the spec: the tensor type \<open>phi::DenseTensor\<close>, whose definition the
  verified source files do not contain.  A tensor has its own shape and a holder, the
  allocation it keeps its data in (none before the first allocation).
\<close>

record allocation =
  alloc_id :: nat
  capacity :: nat

record tensor =
  holder :: "allocation option"
  dims :: "nat list"

text \<open>
  Modelled from the spec: \<open>DenseTensor::memory_size\<close>, the capacity of the backing
  allocation, which tensors that share a buffer share.
\<close>

definition memory_size :: "tensor \<Rightarrow> nat" where
  "memory_size t = (case holder t of None \<Rightarrow> 0 | Some a \<Rightarrow> capacity a)"

text \<open>
  Modelled from the spec: \<open>DenseTensor::ShareBufferWith(src, true)\<close>, which is "share
  buffer, keep own shape/metadata": "only the backing allocation pointer and capacity
  are shared".
\<close>

definition ShareBufferWith :: "tensor \<Rightarrow> tensor \<Rightarrow> tensor" where
  "ShareBufferWith t src = t\<lparr>holder := holder src\<rparr>"

text \<open>
  A variable holds nothing yet, a dense tensor, or storage of another kind (named by
  the number of its type).
\<close>

datatype variable =
    Uninitialized
  | DenseTensor tensor
  | OtherKind nat

fun is_dense :: "variable \<Rightarrow> bool" where
  "is_dense (DenseTensor t) = True"
| "is_dense _ = False"

text \<open>
  The heap holds the scopes and the variables by address: the parent pointer of the scope
  at an address (\<open>None\<close> is the null pointer), the scope's table from names to the
  addresses of its variables (the members \<open>parent_\<close> and \<open>vars_\<close> of a scope), the
  variable at an address, and the next address the allocator hands out.  A pointer to the tensor of a variable is modelled by the address
  of the variable.
\<close>

record heap =
  scope_parent :: "nat \<Rightarrow> nat option"
  scope_vars :: "nat \<Rightarrow> string \<Rightarrow> nat option"
  variables :: "nat \<Rightarrow> variable"
  next_addr :: nat

text \<open>
  Modelled from the spec: the constructor of \<open>Scope\<close>, whose definition the verified
  source files do not contain.  \<open>new framework::Scope\<close> is "a fresh root scope": a
  scope with no parent and no variable, at a new address.
\<close>

definition new_Scope :: "heap \<Rightarrow> nat \<times> heap" where
  "new_Scope h =
     (next_addr h,
      h\<lparr>scope_parent := (scope_parent h)(next_addr h := None),
        scope_vars := (scope_vars h)(next_addr h := Map.empty),
        next_addr := Suc (next_addr h)\<rparr>)"

text \<open>
  Modelled from the spec: \<open>Scope::FindVar\<close>, whose definition the verified source
  files do not contain.  The scope is a "hierarchical key-value store of named
  variables", whose "lookups can walk up to an ancestor".  The walk up the parent
  pointers need not end when the pointers form a cycle: \<open>None\<close> is the lookup that
  never returns, \<open>Some None\<close> the null pointer it returns when no scope of the chain
  has the name.
\<close>

partial_function (option) FindVar :: "heap \<Rightarrow> nat \<Rightarrow> string \<Rightarrow> nat option option" where
  "FindVar h s name =
     (case scope_vars h s name of
        Some v \<Rightarrow> Some (Some v)
      | None \<Rightarrow> (case scope_parent h s of None \<Rightarrow> Some None | Some p \<Rightarrow> FindVar h p name))"

text \<open>
  Modelled from the spec: \<open>Scope::Var\<close>, whose definition the verified source files
  do not contain.  It is "create-if-absent" in the scope it is called on: the variable
  the scope has under the name, or else a new variable, which holds nothing yet, at a
  new address.
\<close>

definition Var :: "heap \<Rightarrow> nat \<Rightarrow> string \<Rightarrow> nat \<times> heap" where
  "Var h s name =
     (case scope_vars h s name of
        Some v \<Rightarrow> (v, h)
      | None \<Rightarrow>
         (next_addr h,
          h\<lparr>scope_vars := (scope_vars h)(s := (scope_vars h s)(name \<mapsto> next_addr h)),
            variables := (variables h)(next_addr h := Uninitialized),
            next_addr := Suc (next_addr h)\<rparr>))"

text \<open>
  \<open>InitializeVariable(ptr, type)\<close> is defined outside the verified source files:
  what it makes of the variable at \<open>ptr\<close> is a parameter.
\<close>

definition init_at :: "(nat \<Rightarrow> variable \<Rightarrow> variable) \<Rightarrow> nat \<Rightarrow> nat \<Rightarrow> heap \<Rightarrow> heap" where
  "init_at InitializeVariable ptr ty h =
     h\<lparr>variables := (variables h)(ptr := InitializeVariable ty (variables h ptr))\<rparr>"

section \<open>The executor\<close>

text \<open>
  The members of \<open>NaiveExecutor\<close> the modelled functions use (\<open>m_scope\<close> is the
  member \<open>scope_\<close> of the source, and so on).  An operator of \<open>ops_\<close>
  is identified, where the source uses the pointer \<open>op.get()\<close>, by its position in the
  list.  \<open>reuse_cache_\<close> maps an operator to a map from tensor pointers to cluster ids;
  both hash maps are association lists, whose order is the order in which the hash map
  enumerates its entries.  A slot of \<open>cluster_buffer_\<close> is a tensor pointer or null.
\<close>

record executor =
  m_scope :: "nat option"
  m_ops :: "operator list"
  m_input_hookfuncs :: "hook list"
  m_output_hookfuncs :: "hook list"
  m_reuse_cache :: "(nat \<times> (nat \<times> nat) list) list"
  m_cluster_buffer :: "nat option list"

text \<open>An executor as its constructor leaves it.\<close>

definition new_executor :: executor where
  "new_executor =
     \<lparr>m_scope = None, m_ops = [], m_input_hookfuncs = [], m_output_hookfuncs = [],
      m_reuse_cache = [], m_cluster_buffer = []\<rparr>"

subsection \<open>\<open>CreateOps\<close> and \<open>Prepare\<close>\<close>

text \<open>
  The log line of the skip branch: it evaluates \<open>op_desc->Input("X")[0]\<close>, then the type,
  then \<open>op_desc->Output("Out")[0]\<close>; its value is the text written, and a descriptor
  without a first \<open>X\<close> input or a first \<open>Out\<close> output makes it fail.
\<close>

definition log_skip :: "op_desc \<Rightarrow> error + string" where
  "log_skip op_desc =
     (case first_of (desc_inputs op_desc) ''X'' of
        Inl err \<Rightarrow> Inl err
      | Inr x \<Rightarrow>
          (case first_of (desc_outputs op_desc) ''Out'' of
             Inl err \<Rightarrow> Inl err
           | Inr out \<Rightarrow>
               Inr (''---  skip ['' @ x @ ''], '' @ desc_type op_desc @ '' -> '' @ out)))"

text \<open>
  The loop of \<open>CreateOps\<close> over the descriptors of the block: a descriptor of type
  \<open>feed\<close> or \<open>fetch\<close> is logged and skipped, any other gets an operator appended to the
  list.  A failure of the log line ends the loop with that failure.
\<close>

fun create_ops :: "op_desc list \<Rightarrow> operator list \<Rightarrow> error + operator list" where
  "create_ops [] ops = Inr ops"
| "create_ops (op_desc # rest) ops =
     (if desc_type op_desc = ''feed'' \<or> desc_type op_desc = ''fetch''
      then (case log_skip op_desc of
              Inl err \<Rightarrow> Inl err
            | Inr line \<Rightarrow> create_ops rest ops)
      else create_ops rest (ops @ [CreateOp op_desc]))"

definition CreateOps :: "program_desc \<Rightarrow> int \<Rightarrow> executor \<Rightarrow> error + executor" where
  "CreateOps desc block_id e =
     (case Block desc block_id of
        Inl err \<Rightarrow> Inl err
      | Inr b \<Rightarrow>
          (case create_ops (AllOps b) (m_ops e) of
             Inl err \<Rightarrow> Inl err
           | Inr ops \<Rightarrow> Inr (e\<lparr>m_ops := ops\<rparr>)))"

definition Prepare ::
  "nat option \<Rightarrow> program_desc \<Rightarrow> int \<Rightarrow> executor \<Rightarrow> heap \<Rightarrow> error + executor \<times> heap" where
  "Prepare scope program_desc block_id e h =
     (case scope of
        None \<Rightarrow>
          (case new_Scope h of
             (s, h') \<Rightarrow>
               (case CreateOps program_desc block_id (e\<lparr>m_scope := Some s\<rparr>) of
                  Inl err \<Rightarrow> Inl err
                | Inr e' \<Rightarrow> Inr (e', h')))
      | Some s \<Rightarrow>
          (case CreateOps program_desc block_id (e\<lparr>m_scope := Some s\<rparr>) of
             Inl err \<Rightarrow> Inl err
           | Inr e' \<Rightarrow> Inr (e', h)))"

subsection \<open>Hook registration\<close>

definition RegisterInputHook :: "hook \<Rightarrow> executor \<Rightarrow> executor" where
  "RegisterInputHook hookfunc e = e\<lparr>m_input_hookfuncs := m_input_hookfuncs e @ [hookfunc]\<rparr>"

definition RegisterOutputHook :: "hook \<Rightarrow> executor \<Rightarrow> executor" where
  "RegisterOutputHook hookfunc e = e\<lparr>m_output_hookfuncs := m_output_hookfuncs e @ [hookfunc]\<rparr>"

subsection \<open>The buffer update of \<open>Run\<close>\<close>

text \<open>
  Reading through a tensor pointer: the variable at the address must still hold a dense
  tensor.  Reading a slot of \<open>cluster_buffer_\<close>: the index must be in range and the
  pointer in the slot must not be null.
\<close>

definition tensor_at :: "heap \<Rightarrow> nat \<Rightarrow> error + tensor" where
  "tensor_at h p =
     (case variables h p of DenseTensor t \<Rightarrow> Inr t | _ \<Rightarrow> Inl InvalidTensorPointer)"

definition cluster_slot :: "nat option list \<Rightarrow> nat \<Rightarrow> error + nat" where
  "cluster_slot cb i =
     (if i < length cb then (case cb ! i of None \<Rightarrow> Inl NullPointer | Some p \<Rightarrow> Inr p)
      else Inl OutOfRange)"

text \<open>
  The two nested iterations: every tensor recorded under the updated cluster id, in the map of
  any operator, shares the buffer of \<open>cluster_buffer_[it2.second]\<close>.
\<close>

fun share_entries :: "nat option list \<Rightarrow> nat \<Rightarrow> (nat \<times> nat) list \<Rightarrow> heap \<Rightarrow> error + heap" where
  "share_entries cb updated_cluster_id [] h = Inr h"
| "share_entries cb updated_cluster_id (it2 # rest) h =
     (if snd it2 = updated_cluster_id then
        (case cluster_slot cb (snd it2) of
           Inl err \<Rightarrow> Inl err
         | Inr src \<Rightarrow>
            (case tensor_at h src of
               Inl err \<Rightarrow> Inl err
             | Inr st \<Rightarrow>
                (case tensor_at h (fst it2) of
                   Inl err \<Rightarrow> Inl err
                 | Inr t \<Rightarrow>
                    share_entries cb updated_cluster_id rest
                      (h\<lparr>variables :=
                          (variables h)(fst it2 := DenseTensor (ShareBufferWith t st))\<rparr>))))
      else share_entries cb updated_cluster_id rest h)"

fun share_cache ::
  "nat option list \<Rightarrow> nat \<Rightarrow> (nat \<times> (nat \<times> nat) list) list \<Rightarrow> heap \<Rightarrow> error + heap" where
  "share_cache cb updated_cluster_id [] h = Inr h"
| "share_cache cb updated_cluster_id (op_map # rest) h =
     (case share_entries cb updated_cluster_id (snd op_map) h of
        Inl err \<Rightarrow> Inl err
      | Inr h' \<Rightarrow> share_cache cb updated_cluster_id rest h')"

text \<open>The body of the loop over the entries recorded for the operator that has run.\<close>

definition update_entry ::
  "(nat \<times> (nat \<times> nat) list) list \<Rightarrow> nat \<times> nat \<Rightarrow> nat option list \<times> heap \<Rightarrow>
   error + nat option list \<times> heap" where
  "update_entry cache it s =
     (case s of (cb, h) \<Rightarrow>
        (case tensor_at h (fst it) of
           Inl err \<Rightarrow> Inl err
         | Inr t \<Rightarrow>
            (case cluster_slot cb (snd it) of
               Inl err \<Rightarrow> Inl err
             | Inr c \<Rightarrow>
                (case tensor_at h c of
                   Inl err \<Rightarrow> Inl err
                 | Inr ct \<Rightarrow>
                    if memory_size t > memory_size ct then
                      (case share_cache (cb[snd it := Some (fst it)]) (snd it) cache h of
                         Inl err \<Rightarrow> Inl err
                       | Inr h' \<Rightarrow> Inr (cb[snd it := Some (fst it)], h'))
                    else Inr (cb, h)))))"

fun update_entries ::
  "(nat \<times> (nat \<times> nat) list) list \<Rightarrow> (nat \<times> nat) list \<Rightarrow> nat option list \<times> heap \<Rightarrow>
   error + nat option list \<times> heap" where
  "update_entries cache [] s = Inr s"
| "update_entries cache (it # rest) s =
     (case update_entry cache it s of
        Inl err \<Rightarrow> Inl err
      | Inr s' \<Rightarrow> update_entries cache rest s')"

definition update_buffers ::
  "(nat \<times> (nat \<times> nat) list) list \<Rightarrow> nat \<Rightarrow> nat option list \<times> heap \<Rightarrow>
   error + nat option list \<times> heap" where
  "update_buffers cache i s =
     (case map_of cache i of
        None \<Rightarrow> Inr s
      | Some entries \<Rightarrow> update_entries cache entries s)"

subsection \<open>\<open>Run\<close>\<close>

text \<open>
  What can be observed of a run: the calls of the hooks and the executions of the
  operators, each with the position of the operator in \<open>ops_\<close> and the operator as it
  is at that moment.  An event is recorded when the call starts.
\<close>

datatype event =
    HookCall hook nat operator
  | OpRun nat operator

record run_state =
  rs_exec :: executor
  rs_heap :: heap
  rs_trace :: "event list"

text \<open>
  What an operator does to the heap when it runs against a scope, and what a hook does
  when it is called with an operator and the scope pointer, are parameters: each returns
  the new heap or fails with a message.
\<close>

type_synonym exec_op = "operator \<Rightarrow> nat \<Rightarrow> heap \<Rightarrow> string + heap"
type_synonym call_hook = "hook \<Rightarrow> operator \<Rightarrow> nat option \<Rightarrow> heap \<Rightarrow> string + heap"

fun call_hooks ::
  "call_hook \<Rightarrow> hook list \<Rightarrow> nat \<Rightarrow> operator \<Rightarrow> nat option \<Rightarrow> heap \<Rightarrow> event list \<Rightarrow>
   error option \<times> heap \<times> event list" where
  "call_hooks ch [] i op sc h tr = (None, h, tr)"
| "call_hooks ch (func # rest) i op sc h tr =
     (case ch func op sc h of
        Inl msg \<Rightarrow> (Some (External msg), h, tr @ [HookCall func i op])
      | Inr h' \<Rightarrow> call_hooks ch rest i op sc h' (tr @ [HookCall func i op]))"

text \<open>
  The body of the loop of \<open>Run\<close> for the operator at position \<open>i\<close>.  A failure ends the
  run: the first component of the result is the failure, if any.
\<close>

definition run_one ::
  "exec_op \<Rightarrow> call_hook \<Rightarrow> nat \<Rightarrow> operator \<Rightarrow> run_state \<Rightarrow> error option \<times> run_state" where
  "run_one ex ch i op s =
     (let e = rs_exec s;
          op0 = op\<lparr>is_called_by_executor := False\<rparr>
      in case call_hooks ch (m_input_hookfuncs e) i op0 (m_scope e) (rs_heap s) (rs_trace s) of
           (Some err, h1, tr1) \<Rightarrow>
             (Some err,
              \<lparr>rs_exec = e\<lparr>m_ops := (m_ops e)[i := op0]\<rparr>, rs_heap = h1, rs_trace = tr1\<rparr>)
         | (None, h1, tr1) \<Rightarrow>
             (let op1 = (if op_type op0 = ''while'' \<or> op_type op0 = ''conditional_block''
                         then op0\<lparr>op_output_hooks := m_output_hookfuncs e,
                                 op_input_hooks := m_input_hookfuncs e\<rparr>
                         else op0);
                  e1 = e\<lparr>m_ops := (m_ops e)[i := op1]\<rparr>
              in case m_scope e of
                   None \<Rightarrow> (Some NullPointer, \<lparr>rs_exec = e1, rs_heap = h1, rs_trace = tr1\<rparr>)
                 | Some sc \<Rightarrow>
                     (case ex op1 sc h1 of
                        Inl msg \<Rightarrow>
                          (Some (External msg),
                           \<lparr>rs_exec = e1, rs_heap = h1, rs_trace = tr1 @ [OpRun i op1]\<rparr>)
                      | Inr h2 \<Rightarrow>
                          (case update_buffers (m_reuse_cache e) i (m_cluster_buffer e, h2) of
                             Inl err \<Rightarrow>
                               (Some err,
                                \<lparr>rs_exec = e1, rs_heap = h2,
                                 rs_trace = tr1 @ [OpRun i op1]\<rparr>)
                           | Inr (cb, h3) \<Rightarrow>
                               (case call_hooks ch (m_output_hookfuncs e) i op1 (m_scope e) h3
                                       (tr1 @ [OpRun i op1]) of
                                  (r, h4, tr4) \<Rightarrow>
                                    (r, \<lparr>rs_exec = e1\<lparr>m_cluster_buffer := cb\<rparr>,
                                         rs_heap = h4, rs_trace = tr4\<rparr>))))))"

fun run_ops ::
  "exec_op \<Rightarrow> call_hook \<Rightarrow> nat \<Rightarrow> operator list \<Rightarrow> run_state \<Rightarrow> error option \<times> run_state" where
  "run_ops ex ch i [] s = (None, s)"
| "run_ops ex ch i (op # rest) s =
     (case run_one ex ch i op s of
        (Some err, s') \<Rightarrow> (Some err, s')
      | (None, s') \<Rightarrow> run_ops ex ch (Suc i) rest s')"

definition Run :: "exec_op \<Rightarrow> call_hook \<Rightarrow> run_state \<Rightarrow> error option \<times> run_state" where
  "Run ex ch s = run_ops ex ch 0 (m_ops (rs_exec s)) s"

subsection \<open>\<open>CreateVariables\<close>\<close>

text \<open>
  The loop \<open>while (anc->parent()) anc = anc->parent()\<close>; it does not end when the parent
  pointers form a cycle, and \<open>None\<close> is the walk that never returns.
\<close>

partial_function (option) root_of :: "heap \<Rightarrow> nat \<Rightarrow> nat option" where
  "root_of h anc = (case scope_parent h anc of None \<Rightarrow> Some anc | Some p \<Rightarrow> root_of h p)"

text \<open>
  The loop over the variable descriptors of the block.  The reserved name
  \<open>kEmptyVarName\<close> is a constant defined outside the verified source files: it is a
  parameter.
\<close>

fun create_vars ::
  "string \<Rightarrow> (nat \<Rightarrow> variable \<Rightarrow> variable) \<Rightarrow> bool \<Rightarrow> nat \<Rightarrow> nat \<Rightarrow> var_desc list \<Rightarrow>
   heap \<Rightarrow> heap option" where
  "create_vars kEmptyVarName init persistable scope anc [] h = Some h"
| "create_vars kEmptyVarName init persistable scope anc (var # rest) h =
     (if var_name var = kEmptyVarName
      then create_vars kEmptyVarName init persistable scope anc rest h
      else if persistable = var_persistable var then
        (if persistable then
           (case FindVar h anc (var_name var) of
              None \<Rightarrow> None
            | Some (Some found) \<Rightarrow> create_vars kEmptyVarName init persistable scope anc rest h
            | Some None \<Rightarrow>
               (case Var h anc (var_name var) of
                  (ptr, h') \<Rightarrow>
                    create_vars kEmptyVarName init persistable scope anc rest
                      (init_at init ptr (var_type var) h')))
         else
           (case Var h scope (var_name var) of
              (ptr, h') \<Rightarrow>
                create_vars kEmptyVarName init persistable scope anc rest
                  (init_at init ptr (var_type var) h')))
      else create_vars kEmptyVarName init persistable scope anc rest h)"

definition CreateVariables ::
  "string \<Rightarrow> (nat \<Rightarrow> variable \<Rightarrow> variable) \<Rightarrow> program_desc \<Rightarrow> int \<Rightarrow> bool \<Rightarrow> nat option \<Rightarrow>
   heap \<Rightarrow> (error + heap) option" where
  "CreateVariables kEmptyVarName init desc block_id persistable scope h =
     (case scope of
        None \<Rightarrow> Some (Inl (InvalidArgument ''The Scope to hold variables is nullptr.''))
      | Some sc \<Rightarrow>
          (case Block desc block_id of
             Inl err \<Rightarrow> Some (Inl err)
           | Inr global_block \<Rightarrow>
               if scope_parent h sc = Some sc
               then Some (Inl (InvalidArgument ''Input scope should be child scope.''))
               else
                 (case root_of h sc of
                    None \<Rightarrow> None
                  | Some anc \<Rightarrow>
                      map_option Inr
                        (create_vars kEmptyVarName init persistable sc anc
                           (AllVars global_block) h))))"

subsection \<open>\<open>FindTensor\<close>\<close>

text \<open>
  \<open>Variable::Get\<close> is defined outside the verified source files and the spec does not
  describe it:
  the failure it raises on a variable that holds no dense tensor is a parameter.  The
  result is the pointer to the tensor of the variable.
\<close>

definition FindTensor ::
  "(variable \<Rightarrow> error) \<Rightarrow> executor \<Rightarrow> heap \<Rightarrow> string \<Rightarrow> (error + nat) option" where
  "FindTensor get_failure e h name =
     (case m_scope e of
        None \<Rightarrow>
          Some (Inl (PreconditionNotMet ''Need to init scope in NaiveExecutor firstly.''))
      | Some sc \<Rightarrow>
          (case FindVar h sc name of
             None \<Rightarrow> None
           | Some None \<Rightarrow>
               Some (Inl (NotFound (''No variable ['' @ name @ ''] in current scope.'')))
           | Some (Some var) \<Rightarrow>
               (case variables h var of
                  DenseTensor t \<Rightarrow> Some (Inr var)
                | other \<Rightarrow> Some (Inl (get_failure other)))))"

subsection \<open>\<open>MakeReusePlan\<close>\<close>

text \<open>
  The first loop groups the keys of the reuse table by their target names.
\<close>

fun insert_cluster ::
  "string \<Rightarrow> string \<Rightarrow> (string \<times> string list) list \<Rightarrow> (string \<times> string list) list" where
  "insert_cluster target name [] = [(target, [name])]"
| "insert_cluster target name (c # rest) =
     (if fst c = target
      then (fst c, if name \<in> set (snd c) then snd c else snd c @ [name]) # rest
      else c # insert_cluster target name rest)"

fun clusters_of ::
  "(string \<times> string) list \<Rightarrow> (string \<times> string list) list \<Rightarrow> (string \<times> string list) list" where
  "clusters_of [] clusters = clusters"
| "clusters_of (it # rest) clusters = clusters_of rest (insert_cluster (snd it) (fst it) clusters)"

text \<open>
  The second loop pushes the keys of \<open>clusters\<close> to \<open>cluster_names\<close> in the order in
  which the hash map enumerates them, which the language leaves open: \<open>cluster_names\<close>
  is a parameter of the plan, and any list that enumerates the keys once each is one
  the loop can produce.
\<close>

definition enumerates :: "string list \<Rightarrow> (string \<times> string) list \<Rightarrow> bool" where
  "enumerates cluster_names reuse_table =
     (distinct cluster_names \<and> set cluster_names = set (map fst (clusters_of reuse_table [])))"

text \<open>\<open>std::find(...) - begin()\<close>: the length of the list when the element is not in it.\<close>

fun index_of :: "'a list \<Rightarrow> 'a \<Rightarrow> nat" where
  "index_of [] x = 0"
| "index_of (y # ys) x = (if y = x then 0 else Suc (index_of ys x))"

definition resize :: "nat \<Rightarrow> 'a option list \<Rightarrow> 'a option list" where
  "resize n xs = take n xs @ replicate (n - length xs) None"

text \<open>
  \<open>emplace\<close> on the map of an operator keeps an entry that is already there for the
  tensor; assigning to \<open>reuse_cache_[op.get()]\<close> replaces the map of the operator.
\<close>

definition emplace :: "(nat \<times> nat) list \<Rightarrow> nat \<Rightarrow> nat \<Rightarrow> (nat \<times> nat) list" where
  "emplace m tensor idx = (if map_of m tensor = None then m @ [(tensor, idx)] else m)"

fun replace_map ::
  "(nat \<times> (nat \<times> nat) list) list \<Rightarrow> nat \<Rightarrow> (nat \<times> nat) list \<Rightarrow> (nat \<times> (nat \<times> nat) list) list" where
  "replace_map [] i m = []"
| "replace_map (op_map # rest) i m =
     (if fst op_map = i then (i, m) # rest else op_map # replace_map rest i m)"

definition record_entry ::
  "(nat \<times> (nat \<times> nat) list) list \<Rightarrow> nat \<Rightarrow> nat \<Rightarrow> nat \<Rightarrow> (nat \<times> (nat \<times> nat) list) list" where
  "record_entry cache i tensor idx =
     (case map_of cache i of
        Some m \<Rightarrow> replace_map cache i (emplace m tensor idx)
      | None \<Rightarrow> cache @ [(i, [(tensor, idx)])])"

text \<open>The body of the loop over the output names of the operator at position \<open>i\<close>.\<close>

definition plan_name ::
  "heap \<Rightarrow> nat option \<Rightarrow> (string \<times> string) list \<Rightarrow> string list \<Rightarrow> nat \<Rightarrow> string \<Rightarrow>
   (nat \<times> (nat \<times> nat) list) list \<times> nat option list \<Rightarrow>
   (error + (nat \<times> (nat \<times> nat) list) list \<times> nat option list) option" where
  "plan_name h scope reuse_table cluster_names i name s =
     (case map_of reuse_table name of
        None \<Rightarrow> Some (Inr s)
      | Some reuse_name \<Rightarrow>
          (case scope of
             None \<Rightarrow> Some (Inl NullPointer)
           | Some sc \<Rightarrow>
               (case FindVar h sc name of
                  None \<Rightarrow> None
                | Some var \<Rightarrow>
                    (case FindVar h sc reuse_name of
                       None \<Rightarrow> None
                     | Some reuse_var \<Rightarrow>
                         (case (var, reuse_var) of
                            (Some tensor, Some reuse_tensor) \<Rightarrow>
                              if is_dense (variables h tensor) \<and>
                                 is_dense (variables h reuse_tensor)
                              then
                                (let idx = index_of cluster_names reuse_name
                                 in if idx < length (snd s)
                                    then Some (Inr (record_entry (fst s) i tensor idx,
                                                    (snd s)[idx := Some reuse_tensor]))
                                    else Some (Inl OutOfRange))
                              else Some (Inr s)
                          | _ \<Rightarrow> Some (Inr s))))))"

fun plan_names ::
  "heap \<Rightarrow> nat option \<Rightarrow> (string \<times> string) list \<Rightarrow> string list \<Rightarrow> nat \<Rightarrow> string list \<Rightarrow>
   (nat \<times> (nat \<times> nat) list) list \<times> nat option list \<Rightarrow>
   (error + (nat \<times> (nat \<times> nat) list) list \<times> nat option list) option" where
  "plan_names h scope reuse_table cluster_names i [] s = Some (Inr s)"
| "plan_names h scope reuse_table cluster_names i (name # rest) s =
     (case plan_name h scope reuse_table cluster_names i name s of
        None \<Rightarrow> None
      | Some (Inl err) \<Rightarrow> Some (Inl err)
      | Some (Inr s') \<Rightarrow> plan_names h scope reuse_table cluster_names i rest s')"

fun plan_ops ::
  "heap \<Rightarrow> nat option \<Rightarrow> (string \<times> string) list \<Rightarrow> string list \<Rightarrow> nat \<Rightarrow> operator list \<Rightarrow>
   (nat \<times> (nat \<times> nat) list) list \<times> nat option list \<Rightarrow>
   (error + (nat \<times> (nat \<times> nat) list) list \<times> nat option list) option" where
  "plan_ops h scope reuse_table cluster_names i [] s = Some (Inr s)"
| "plan_ops h scope reuse_table cluster_names i (op # rest) s =
     (case plan_names h scope reuse_table cluster_names i (output_vars op) s of
        None \<Rightarrow> None
      | Some (Inl err) \<Rightarrow> Some (Inl err)
      | Some (Inr s') \<Rightarrow> plan_ops h scope reuse_table cluster_names (Suc i) rest s')"

definition MakeReusePlan ::
  "string list \<Rightarrow> (string \<times> string) list \<Rightarrow> heap \<Rightarrow> executor \<Rightarrow> (error + executor) option" where
  "MakeReusePlan cluster_names reuse_table h e =
     (case plan_ops h (m_scope e) reuse_table cluster_names 0 (m_ops e)
             (m_reuse_cache e, resize (length cluster_names) (m_cluster_buffer e)) of
        None \<Rightarrow> None
      | Some (Inl err) \<Rightarrow> Some (Inl err)
      | Some (Inr s) \<Rightarrow> Some (Inr (e\<lparr>m_reuse_cache := fst s, m_cluster_buffer := snd s\<rparr>)))"

section \<open>The order of a run, in the words of the specification\<close>

text \<open>
  The operator as it executes: marked as not called by an executor and, when its type is
  \<open>while\<close> or \<open>conditional_block\<close>, holding the current hook lists of the executor.
\<close>

definition as_run :: "hook list \<Rightarrow> hook list \<Rightarrow> operator \<Rightarrow> operator" where
  "as_run ihs ohs op =
     (if op_type op = ''while'' \<or> op_type op = ''conditional_block''
      then op\<lparr>is_called_by_executor := False, op_output_hooks := ohs, op_input_hooks := ihs\<rparr>
      else op\<lparr>is_called_by_executor := False\<rparr>)"

text \<open>
  What is to be observed for one operator: every input hook in registration order, the
  execution of the operator, every output hook in registration order.
\<close>

definition op_events :: "hook list \<Rightarrow> hook list \<Rightarrow> nat \<Rightarrow> operator \<Rightarrow> event list" where
  "op_events ihs ohs i op =
     map (\<lambda>func. HookCall func i (op\<lparr>is_called_by_executor := False\<rparr>)) ihs @
     [OpRun i (as_run ihs ohs op)] @
     map (\<lambda>func. HookCall func i (as_run ihs ohs op)) ohs"

fun events_from :: "hook list \<Rightarrow> hook list \<Rightarrow> nat \<Rightarrow> operator list \<Rightarrow> event list" where
  "events_from ihs ohs i [] = []"
| "events_from ihs ohs i (op # rest) = op_events ihs ohs i op @ events_from ihs ohs (Suc i) rest"

text \<open>
  What a sequence of events does, one event after the other, to the cluster buffers and
  the heap.  A hook call applies the hook to the operator of the event and the scope
  pointer.  An execution runs the operator of the event against the scope and then
  updates the buffers from the entries recorded for the position of the event; without
  a scope it does not start.  The result is the failure that ended the sequence, if
  any, the buffers and the heap reached, and the events that have started.
\<close>

fun replay ::
  "exec_op \<Rightarrow> call_hook \<Rightarrow> nat option \<Rightarrow> (nat \<times> (nat \<times> nat) list) list \<Rightarrow> event list \<Rightarrow>
   nat option list \<times> heap \<Rightarrow> error option \<times> (nat option list \<times> heap) \<times> event list" where
  "replay ex ch scope cache [] st = (None, st, [])"
| "replay ex ch scope cache (HookCall func i op # rest) st =
     (case ch func op scope (snd st) of
        Inl msg \<Rightarrow> (Some (External msg), st, [HookCall func i op])
      | Inr h' \<Rightarrow>
          (case replay ex ch scope cache rest (fst st, h') of
             (r, st', started) \<Rightarrow> (r, st', HookCall func i op # started)))"
| "replay ex ch scope cache (OpRun i op # rest) st =
     (case scope of
        None \<Rightarrow> (Some NullPointer, st, [])
      | Some sc \<Rightarrow>
          (case ex op sc (snd st) of
             Inl msg \<Rightarrow> (Some (External msg), st, [OpRun i op])
           | Inr h' \<Rightarrow>
               (case update_buffers cache i (fst st, h') of
                  Inl err \<Rightarrow> (Some err, (fst st, h'), [OpRun i op])
                | Inr st' \<Rightarrow>
                    (case replay ex ch scope cache rest st' of
                       (r, st'', started) \<Rightarrow> (r, st'', OpRun i op # started)))))"

text \<open>The executions of operators in a trace: position and type of each, in order.\<close>

fun executed :: "event list \<Rightarrow> (nat \<times> string) list" where
  "executed [] = []"
| "executed (HookCall func i op # rest) = executed rest"
| "executed (OpRun i op # rest) = (i, op_type op) # executed rest"

definition not_feed_fetch :: "string \<Rightarrow> bool" where
  "not_feed_fetch ty = (ty \<noteq> ''feed'' \<and> ty \<noteq> ''fetch'')"

section \<open>The clusters of a reuse plan\<close>

text \<open>
  All recorded entries of the cache, and the tensors recorded under a cluster id in the
  map of any operator.
\<close>

definition all_entries :: "(nat \<times> (nat \<times> nat) list) list \<Rightarrow> (nat \<times> nat) list" where
  "all_entries cache = concat (map snd cache)"

definition cluster_members :: "nat \<Rightarrow> (nat \<times> (nat \<times> nat) list) list \<Rightarrow> nat list" where
  "cluster_members cid cache = map fst (filter (\<lambda>it. snd it = cid) (all_entries cache))"

text \<open>
  A variable whose tensor, if it holds one, has taken the holder \<open>H\<close> and kept the rest.
\<close>

fun aliased :: "allocation option \<Rightarrow> variable \<Rightarrow> variable" where
  "aliased H (DenseTensor t) = DenseTensor (t\<lparr>holder := H\<rparr>)"
| "aliased H v = v"

text \<open>
  The memory size of the canonical buffer of a cluster: that of the tensor the slot of
  the cluster points to.
\<close>

definition canonical_size :: "nat option list \<Rightarrow> heap \<Rightarrow> nat \<Rightarrow> nat" where
  "canonical_size cb h cid =
     (case cb ! cid of
        None \<Rightarrow> 0
      | Some p \<Rightarrow> (case variables h p of DenseTensor t \<Rightarrow> memory_size t | _ \<Rightarrow> 0))"

text \<open>
  Two properties of a plan.  A tensor is recorded under one cluster id only; and the
  tensor a slot of \<open>cluster_buffer_\<close> points to is recorded, if at all, under the id of
  that slot.  The second fails for a reuse table that chains, in which the target name
  of one key is itself a key with another target.
\<close>

definition one_cluster_each :: "(nat \<times> (nat \<times> nat) list) list \<Rightarrow> bool" where
  "one_cluster_each cache =
     (\<forall>it \<in> set (all_entries cache). \<forall>it' \<in> set (all_entries cache).
        fst it = fst it' \<longrightarrow> snd it = snd it')"

definition buffers_in_own_cluster ::
  "(nat \<times> (nat \<times> nat) list) list \<Rightarrow> nat option list \<Rightarrow> bool" where
  "buffers_in_own_cluster cache cb =
     (\<forall>it \<in> set (all_entries cache). \<forall>c \<in> set [0..<length cb].
        cb ! c = Some (fst it) \<longrightarrow> snd it = c)"

section \<open>Example heaps and plans\<close>

definition tensor_of_size :: "nat \<Rightarrow> nat \<Rightarrow> variable" where
  "tensor_of_size a n = DenseTensor \<lparr>holder = Some \<lparr>alloc_id = a, capacity = n\<rparr>, dims = [n]\<rparr>"

definition demo_heap :: heap where
  "demo_heap =
     \<lparr>scope_parent = (\<lambda>s. None), scope_vars = (\<lambda>s name. None),
      variables = (\<lambda>p. Uninitialized), next_addr = 0\<rparr>"

definition demo_op :: "string \<Rightarrow> operator" where
  "demo_op ty = CreateOp \<lparr>desc_type = ty, desc_inputs = [], desc_outputs = []\<rparr>"

definition demo_executor :: "operator list \<Rightarrow> executor" where
  "demo_executor ops = new_executor\<lparr>m_scope := Some 0, m_ops := ops\<rparr>"

text \<open>
  One scope, at address 0, with the dense tensors \<open>a\<close>, \<open>b\<close>, \<open>c\<close> and \<open>d\<close> of memory
  sizes 5, 100, 10 and 20 at the addresses 1 to 4, and an uninitialized variable \<open>u\<close>.
\<close>

definition chain_heap :: heap where
  "chain_heap =
     \<lparr>scope_parent = (\<lambda>s. None),
      scope_vars = (\<lambda>s. if s = 0
                         then [''a'' \<mapsto> 1, ''b'' \<mapsto> 2, ''c'' \<mapsto> 3, ''d'' \<mapsto> 4, ''u'' \<mapsto> 5]
                         else Map.empty),
      variables = (\<lambda>p. if p = 1 then tensor_of_size 1 5
                        else if p = 2 then tensor_of_size 2 100
                        else if p = 3 then tensor_of_size 3 10
                        else if p = 4 then tensor_of_size 4 20
                        else Uninitialized),
      next_addr = 6\<rparr>"

text \<open>
  Three operators that produce \<open>d\<close>, \<open>a\<close> and \<open>b\<close>, and a reuse table that chains: \<open>a\<close>
  reuses \<open>b\<close>, while \<open>b\<close> and \<open>d\<close> reuse \<open>c\<close>.
\<close>

definition chain_executor :: executor where
  "chain_executor =
     new_executor\<lparr>m_scope := Some 0,
       m_ops := [CreateOp \<lparr>desc_type = ''op_d'', desc_inputs = [],
                           desc_outputs = [(''Out'', [''d''])]\<rparr>,
                 CreateOp \<lparr>desc_type = ''op_a'', desc_inputs = [],
                           desc_outputs = [(''Out'', [''a''])]\<rparr>,
                 CreateOp \<lparr>desc_type = ''op_b'', desc_inputs = [],
                           desc_outputs = [(''Out'', [''b''])]\<rparr>]\<rparr>"

definition chain_table :: "(string \<times> string) list" where
  "chain_table = [(''a'', ''b''), (''b'', ''c''), (''d'', ''c'')]"

definition chain_cache :: "(nat \<times> (nat \<times> nat) list) list" where
  "chain_cache = [(0, [(4, 1)]), (1, [(1, 0)]), (2, [(2, 1)])]"

text \<open>A plan with one cluster, of the tensors at 1 and 2, whose buffer is the tensor at 3.\<close>

definition flat_cache :: "(nat \<times> (nat \<times> nat) list) list" where
  "flat_cache = [(0, [(1, 0)]), (1, [(2, 0)])]"

text \<open>
  Two scopes and no variable: the scope at address 1 is a child of the scope at
  address 0, which has no parent.  And a heap whose scope at address 0 is its own
  parent.
\<close>

definition nested_heap :: heap where
  "nested_heap =
     \<lparr>scope_parent = (\<lambda>s. if s = 1 then Some 0 else None), scope_vars = (\<lambda>s name. None),
      variables = (\<lambda>p. Uninitialized), next_addr = 2\<rparr>"

definition self_parent_heap :: heap where
  "self_parent_heap =
     \<lparr>scope_parent = (\<lambda>s. if s = 0 then Some 0 else None), scope_vars = (\<lambda>s name. None),
      variables = (\<lambda>p. Uninitialized), next_addr = 1\<rparr>"

text \<open>
  A program of one block that declares a persistent variable \<open>w\<close>, a variable \<open>x\<close> that
  is not persistent, and a persistent variable with the reserved empty name.
\<close>

definition demo_program :: program_desc where
  "demo_program =
     [\<lparr>AllOps = [],
       AllVars = [\<lparr>var_name = ''w'', var_persistable = True, var_type = 7\<rparr>,
                  \<lparr>var_name = ''x'', var_persistable = False, var_type = 7\<rparr>,
                  \<lparr>var_name = ''@EMPTY@'', var_persistable = True, var_type = 7\<rparr>]\<rparr>]"

text \<open>An initialization that gives the variable new, empty storage of the type.\<close>

definition fresh_storage :: "nat \<Rightarrow> variable \<Rightarrow> variable" where
  "fresh_storage ty v = (if ty = 7 then DenseTensor \<lparr>holder = None, dims = []\<rparr> else OtherKind ty)"

text \<open>
  The heap after the variables of \<open>demo_program\<close> that are not persistent have been
  created in the scope at address 1 of \<open>nested_heap\<close>.
\<close>

definition created_once :: heap where
  "created_once =
     \<lparr>scope_parent = (\<lambda>s. if s = 1 then Some 0 else None),
      scope_vars = (\<lambda>s. if s = 1 then [''x'' \<mapsto> 2] else Map.empty),
      variables = (\<lambda>p. if p = 2 then DenseTensor \<lparr>holder = None, dims = []\<rparr>
                        else Uninitialized),
      next_addr = 3\<rparr>"

text \<open>
  An operator whose outputs are \<open>a\<close>, a name \<open>zz\<close> that the scope of \<open>chain_heap\<close> does
  not have and the uninitialized variable \<open>u\<close>, and a reuse table that maps all three
  to \<open>b\<close>.
\<close>

definition skip_executor :: executor where
  "skip_executor =
     new_executor\<lparr>m_scope := Some 0,
       m_ops := [CreateOp \<lparr>desc_type = ''op'', desc_inputs = [],
                           desc_outputs = [(''Out'', [''a'', ''zz'', ''u''])]\<rparr>]\<rparr>"

definition skip_table :: "(string \<times> string) list" where
  "skip_table = [(''a'', ''b''), (''zz'', ''b''), (''u'', ''b'')]"

text \<open>
  An operator and a hook that leave the heap as it is, and builders of patches that
  always fail.
\<close>

definition keep_op :: exec_op where
  "keep_op op sc h = Inr h"

definition keep_hook :: call_hook where
  "keep_hook func op sc h = Inr h"

text \<open>
  An operator and a hook that write down that they have run: each appends a number to
  the shape of the tensor at address 0, the hook its own number, the operator 10 plus
  the number of hooks it holds when it runs.
\<close>

fun written :: "variable \<Rightarrow> nat list" where
  "written (DenseTensor t) = dims t"
| "written v = []"

definition write_down :: "nat \<Rightarrow> heap \<Rightarrow> heap" where
  "write_down n h =
     h\<lparr>variables := (variables h)
          (0 := DenseTensor \<lparr>holder = None, dims = written (variables h 0) @ [n]\<rparr>)\<rparr>"

definition logging_op :: exec_op where
  "logging_op op sc h =
     Inr (write_down (10 + length (op_input_hooks op) + length (op_output_hooks op)) h)"

definition logging_hook :: call_hook where
  "logging_hook func op sc h = Inr (write_down func h)"

text \<open>
  A block that declares \<open>feed\<close>, \<open>A\<close>, \<open>B\<close> and \<open>fetch\<close>, and a block whose \<open>feed\<close>
  descriptor has no input \<open>X\<close>.
\<close>

definition feed_fetch_block :: block_desc where
  "feed_fetch_block =
     \<lparr>AllOps =
        [\<lparr>desc_type = ''feed'', desc_inputs = [(''X'', [''feed''])],
          desc_outputs = [(''Out'', [''x''])]\<rparr>,
         \<lparr>desc_type = ''A'', desc_inputs = [(''X'', [''x''])],
          desc_outputs = [(''Out'', [''y''])]\<rparr>,
         \<lparr>desc_type = ''B'', desc_inputs = [(''X'', [''y''])],
          desc_outputs = [(''Out'', [''z''])]\<rparr>,
         \<lparr>desc_type = ''fetch'', desc_inputs = [(''X'', [''z''])],
          desc_outputs = [(''Out'', [''fetch''])]\<rparr>],
      AllVars = []\<rparr>"

definition bare_feed_block :: block_desc where
  "bare_feed_block =
     \<lparr>AllOps =
        [\<lparr>desc_type = ''A'', desc_inputs = [], desc_outputs = [(''Out'', [''y''])]\<rparr>,
         \<lparr>desc_type = ''feed'', desc_inputs = [], desc_outputs = [(''Out'', [''x''])]\<rparr>],
      AllVars = []\<rparr>"

definition no_json :: "yaml \<Rightarrow> error + unit" where
  "no_json a = Inl BadConversion"

definition no_int :: "yaml \<Rightarrow> error + int" where
  "no_int a = Inl BadConversion"

text \<open>
  \<open>chain_heap\<close> after the tensor \<open>b\<close>, at address 2, has taken the storage of the tensor
  \<open>d\<close> and kept its shape.
\<close>

definition chain_after :: heap where
  "chain_after =
     \<lparr>scope_parent = (\<lambda>s. None),
      scope_vars = (\<lambda>s. if s = 0
                         then [''a'' \<mapsto> 1, ''b'' \<mapsto> 2, ''c'' \<mapsto> 3, ''d'' \<mapsto> 4, ''u'' \<mapsto> 5]
                         else Map.empty),
      variables = (\<lambda>p. if p = 1 then tensor_of_size 1 5
                        else if p = 2
                        then DenseTensor \<lparr>holder = Some \<lparr>alloc_id = 4, capacity = 20\<rparr>,
                                          dims = [100]\<rparr>
                        else if p = 3 then tensor_of_size 3 10
                        else if p = 4 then tensor_of_size 4 20
                        else Uninitialized),
      next_addr = 6\<rparr>"

section \<open>Creating variables a second time\<close>

text \<open>
  What a call of \<open>CreateVariables\<close> for the variables that are not persistent does to a
  scope that has them all: it initializes again, in place, the variable each name has.
\<close>

fun reinitialized ::
  "string \<Rightarrow> (nat \<Rightarrow> variable \<Rightarrow> variable) \<Rightarrow> nat \<Rightarrow> var_desc list \<Rightarrow> heap \<Rightarrow> heap" where
  "reinitialized kEmptyVarName init scope [] h = h"
| "reinitialized kEmptyVarName init scope (var # rest) h =
     (if var_name var \<noteq> kEmptyVarName \<and> \<not> var_persistable var then
        (case scope_vars h scope (var_name var) of
           Some ptr \<Rightarrow>
             reinitialized kEmptyVarName init scope rest (init_at init ptr (var_type var) h)
         | None \<Rightarrow> reinitialized kEmptyVarName init scope rest h)
      else reinitialized kEmptyVarName init scope rest h)"

text \<open>
  Modelled from the spec: \<open>InitializeVariable(ptr, type)\<close>, whose definition the verified
  source files do not contain.  Of the variables that are not persistent the
  specification says that "each call creates fresh zero-initialized storage", "a new
  storage object the second time (old contents are not preserved)": whatever the
  variable holds before, afterwards it holds new storage of the declared type with
  nothing in it, a dense tensor without an allocation and without a shape for the type
  of dense tensors (taken to be the type number 7), storage of the kind of the type
  otherwise.  A storage object is modelled by the value the variable
  holds.
\<close>

definition zero_storage :: "nat \<Rightarrow> variable" where
  "zero_storage ty = (if ty = 7 then DenseTensor \<lparr>holder = None, dims = []\<rparr> else OtherKind ty)"

definition InitializeVariable :: "nat \<Rightarrow> variable \<Rightarrow> variable" where
  "InitializeVariable ty v = zero_storage ty"

text \<open>
  A declared variable that a call for the variables that are not persistent creates: it
  is not persistent and its name is not the reserved empty name.
\<close>

definition created_locally :: "string \<Rightarrow> var_desc \<Rightarrow> bool" where
  "created_locally kEmptyVarName var \<longleftrightarrow> var_name var \<noteq> kEmptyVarName \<and> \<not> var_persistable var"

text \<open>
  The heap \<open>created_once\<close> after an operator has filled the tensor \<open>x\<close>, at address 2,
  with 100 bytes.
\<close>

definition filled_once :: heap where
  "filled_once = created_once\<lparr>variables := (variables created_once)(2 := tensor_of_size 9 100)\<rparr>"

text \<open>The kinds of failure of the specification.\<close>

fun is_precondition_violation :: "error \<Rightarrow> bool" where
  "is_precondition_violation (InvalidArgument msg) = True"
| "is_precondition_violation (PreconditionNotMet msg) = True"
| "is_precondition_violation e = False"

fun is_not_found :: "error \<Rightarrow> bool" where
  "is_not_found (NotFound msg) = True"
| "is_not_found e = False"

section \<open>What a reuse plan records\<close>

text \<open>
  The entries recorded for the operator at a position.  Every recorded entry names a
  slot of \<open>cluster_buffer_\<close> that exists and is set.
\<close>

definition entries_of :: "nat \<Rightarrow> (nat \<times> (nat \<times> nat) list) list \<Rightarrow> (nat \<times> nat) list" where
  "entries_of i cache = (case map_of cache i of None \<Rightarrow> [] | Some m \<Rightarrow> m)"

definition slots_set :: "(nat \<times> (nat \<times> nat) list) list \<Rightarrow> nat option list \<Rightarrow> bool" where
  "slots_set cache cb =
     (\<forall>it \<in> set (all_entries cache). snd it < length cb \<and> cb ! snd it \<noteq> None)"

text \<open>
  What an output name is to contribute to the plan, in the words of the specification:
  when the name is a key of the reuse table and its variable and the variable of its
  target both exist in the scope and are dense tensors, the tensor is recorded with the
  id of the cluster of the target, and the buffer of the cluster is seeded with the
  tensor of the target.  Any other name contributes nothing.
\<close>

definition planned ::
  "heap \<Rightarrow> nat \<Rightarrow> (string \<times> string) list \<Rightarrow> string list \<Rightarrow> string \<Rightarrow>
   (nat \<times> nat \<times> nat) option" where
  "planned h sc reuse_table cluster_names name =
     (case map_of reuse_table name of
        None \<Rightarrow> None
      | Some reuse_name \<Rightarrow>
          (case (FindVar h sc name, FindVar h sc reuse_name) of
             (Some (Some tensor), Some (Some reuse_tensor)) \<Rightarrow>
               if is_dense (variables h tensor) \<and> is_dense (variables h reuse_tensor)
               then Some (tensor, index_of cluster_names reuse_name, reuse_tensor)
               else None
           | _ \<Rightarrow> None))"

text \<open>A failure for \<open>Variable::Get\<close> to raise in the examples.\<close>

definition demo_get_failure :: "variable \<Rightarrow> error" where
  "demo_get_failure v = InvalidArgument ''The variable holds no dense tensor.''"

section \<open>The action dispatch always reaches the renaming branch\<close>

lemma modify_attr_name_condition_always: "modify_attr_name_condition action_name"
  by (simp add: modify_attr_name_condition_def literal_as_bool_def)

text \<open>
  Claim C9.  The condition \<open>action_name == "modify_attr_name" || "modify_output_attr_name"\<close>
  is true for every action name, so every action whose name is none of \<open>add_attr\<close>,
  \<open>modify_attr\<close>, \<open>delete_attr\<close>, \<open>add_output_attr\<close>, \<open>modify_output_attr\<close> and
  \<open>delete_output_attr\<close> takes the \<open>modify_attr_name\<close> branch, whatever its name is: with
  a scalar \<open>object\<close> and a scalar \<open>default\<close> it appends a renaming entry, under
  \<open>ATTRS\<close> when the name is \<open>modify_attr_name\<close> and under \<open>OPRESULTS_ATTRS\<close> for every
  other name.
\<close>

theorem modify_attr_name_branch_taken:
  assumes "action_name \<noteq> ''add_attr''" and "action_name \<noteq> ''modify_attr''"
    and "action_name \<noteq> ''delete_attr''" and "action_name \<noteq> ''add_output_attr''"
    and "action_name \<noteq> ''modify_output_attr''" and "action_name \<noteq> ''delete_output_attr''"
  shows "modify_attr_name_condition action_name \<and>
         dispatch action_name = ModifyAttrNameBranch \<and>
         (yaml_get action ''action'' = Scalar action_name \<and>
          yaml_get action ''object'' = Scalar old_name \<and>
          yaml_get action ''default'' = Scalar new_name \<longrightarrow>
          ParseAction build_attr build_type as_int action =
            Inr (Some (if action_name = ''modify_attr_name'' then ATTRS else OPRESULTS_ATTRS,
                       RenameEntry old_name new_name)))"
proof -
  have c: "modify_attr_name_condition action_name"
    by (rule modify_attr_name_condition_always)
  have d: "dispatch action_name = ModifyAttrNameBranch"
    using assms c by (simp add: dispatch_def)
  have "ParseAction build_attr build_type as_int action =
           Inr (Some (if action_name = ''modify_attr_name'' then ATTRS else OPRESULTS_ATTRS,
                      RenameEntry old_name new_name))"
    if "yaml_get action ''action'' = Scalar action_name"
      and "yaml_get action ''object'' = Scalar old_name"
      and "yaml_get action ''default'' = Scalar new_name"
    using that d by (simp add: ParseAction_def)
  with c d show ?thesis by blast
qed

text \<open>
  The theorem at an action named \<open>modify_output_type\<close>, which the source means for its
  last branch: the renaming branch takes it.
\<close>

theorem modify_attr_name_branch_taken_witness:
  "dispatch ''modify_output_type'' = ModifyAttrNameBranch \<and>
   ParseAction no_json no_json no_int
       (Mapping [(''action'', Scalar ''modify_output_type''), (''object'', Scalar ''0''),
                 (''default'', Scalar ''x'')]) =
     Inr (Some (OPRESULTS_ATTRS, RenameEntry ''0'' ''x''))"
  using modify_attr_name_branch_taken [of "''modify_output_type''"
      "Mapping [(''action'', Scalar ''modify_output_type''), (''object'', Scalar ''0''),
                (''default'', Scalar ''x'')]" "''0''" "''x''" no_json no_json no_int]
  by simp

section \<open>Operators are created and run in declaration order\<close>

lemma create_ops_returns:
  assumes "\<forall>d \<in> set ds. \<not> not_feed_fetch (desc_type d) \<longrightarrow> \<not> isl (log_skip d)"
  shows "create_ops ds ops =
     Inr (ops @ map CreateOp (filter (\<lambda>d. not_feed_fetch (desc_type d)) ds))"
  using assms
proof (induction ds arbitrary: ops)
  case Nil
  then show ?case by simp
next
  case (Cons d ds)
  from Cons.prems have rest:
    "\<forall>d \<in> set ds. \<not> not_feed_fetch (desc_type d) \<longrightarrow> \<not> isl (log_skip d)"
    by simp
  show ?case
  proof (cases "not_feed_fetch (desc_type d)")
    case True
    with Cons.IH [OF rest] show ?thesis by (simp add: not_feed_fetch_def)
  next
    case False
    with Cons.prems have "\<not> isl (log_skip d)" by simp
    then obtain line where "log_skip d = Inr line" by (cases "log_skip d") auto
    with False Cons.IH [OF rest] show ?thesis by (auto simp: not_feed_fetch_def)
  qed
qed

lemma create_ops_fails:
  assumes "create_ops ds ops = Inl err"
  shows "\<exists>d \<in> set ds. \<not> not_feed_fetch (desc_type d) \<and> log_skip d = Inl err"
  using assms
proof (induction ds arbitrary: ops)
  case Nil
  then show ?case by simp
next
  case (Cons d ds)
  show ?case
  proof (cases "not_feed_fetch (desc_type d)")
    case True
    with Cons.prems have "create_ops ds (ops @ [CreateOp d]) = Inl err"
      by (simp add: not_feed_fetch_def)
    from Cons.IH [OF this] show ?thesis by auto
  next
    case False
    show ?thesis
    proof (cases "log_skip d")
      case (Inl e)
      with False Cons.prems have "e = err" by (auto simp: not_feed_fetch_def)
      with False Inl show ?thesis by auto
    next
      case (Inr line)
      with False Cons.prems have "create_ops ds ops = Inl err"
        by (auto simp: not_feed_fetch_def)
      from Cons.IH [OF this] show ?thesis by auto
    qed
  qed
qed

lemma Prepare_fails:
  assumes "Block desc block_id = Inr b"
    and "Prepare scope desc block_id e h = Inl err"
  shows "create_ops (AllOps b) (m_ops e) = Inl err"
  using assms
  by (cases scope; cases "new_Scope h"; cases "create_ops (AllOps b) (m_ops e)")
     (auto simp: Prepare_def CreateOps_def)

lemma Prepare_returns:
  assumes "Block desc block_id = Inr b"
    and "create_ops (AllOps b) (m_ops e) = Inr ops"
  shows "\<exists>e' h'. Prepare scope desc block_id e h = Inr (e', h') \<and> m_ops e' = ops \<and>
           (case scope of None \<Rightarrow> m_scope e' = Some (next_addr h) | Some sc \<Rightarrow> m_scope e' = Some sc)"
  using assms
  by (cases scope) (auto simp: Prepare_def CreateOps_def new_Scope_def)

subsection \<open>A run is the replay of its events\<close>

lemma replay_append:
  "replay ex ch sc cache (xs @ ys) st =
     (case replay ex ch sc cache xs st of
        (Some err, st1, started) \<Rightarrow> (Some err, st1, started)
      | (None, st1, started) \<Rightarrow>
          (case replay ex ch sc cache ys st1 of
             (r, st2, started2) \<Rightarrow> (r, st2, started @ started2)))"
proof (induction xs arbitrary: st sc)
  case Nil
  then show ?case by (simp split: prod.splits)
next
  case (Cons ev xs)
  show ?case
  proof (cases ev)
    case (HookCall func i op)
    then show ?thesis
      by (simp add: Cons.IH split: sum.splits prod.splits option.splits)
  next
    case (OpRun i op)
    then show ?thesis
      by (simp add: Cons.IH split: sum.splits prod.splits option.splits)
  qed
qed

lemma replay_started:
  assumes "replay ex ch sc cache evs st = (r, st', started)"
  shows "prefix started evs \<and> (r = None \<longrightarrow> started = evs)"
  using assms
proof (induction evs arbitrary: st st' started r)
  case Nil
  then show ?case by simp
next
  case (Cons ev evs)
  show ?case
  proof (cases ev)
    case (HookCall func i op)
    show ?thesis
    proof (cases "ch func op sc (snd st)")
      case (Inl msg)
      with Cons.prems HookCall show ?thesis by auto
    next
      case (Inr h1)
      obtain r1 st1 started1 where
        rest: "replay ex ch sc cache evs (fst st, h1) = (r1, st1, started1)"
        by (metis prod_cases3)
      with Cons.prems HookCall Inr have "r = r1" "started = ev # started1" by auto
      with Cons.IH [OF rest] show ?thesis by auto
    qed
  next
    case (OpRun i op)
    show ?thesis
    proof (cases sc)
      case None
      with Cons.prems OpRun show ?thesis by auto
    next
      case (Some s0)
      show ?thesis
      proof (cases "ex op s0 (snd st)")
        case (Inl msg)
        with Cons.prems OpRun Some show ?thesis by auto
      next
        case (Inr h1)
        show ?thesis
        proof (cases "update_buffers cache i (fst st, h1)")
          case failed: (Inl err)
          with Cons.prems OpRun Some Inr show ?thesis by auto
        next
          case upd: (Inr st3)
          obtain r1 st1 started1 where
            rest: "replay ex ch sc cache evs st3 = (r1, st1, started1)"
            by (metis prod_cases3)
          with Cons.prems OpRun Some Inr upd have "r = r1" "started = ev # started1" by auto
          with Cons.IH [OF rest] show ?thesis by auto
        qed
      qed
    qed
  qed
qed

lemma call_hooks_replay:
  assumes "call_hooks ch fs i op sc h tr = (r, h', tr')"
  shows "\<exists>started. tr' = tr @ started \<and>
           replay ex ch sc cache (map (\<lambda>func. HookCall func i op) fs) (cb, h) =
             (r, (cb, h'), started)"
  using assms
proof (induction fs arbitrary: h tr)
  case Nil
  then show ?case by simp
next
  case (Cons f fs)
  show ?case
  proof (cases "ch f op sc h")
    case (Inl msg)
    with Cons.prems show ?thesis by auto
  next
    case (Inr h1)
    with Cons.prems have "call_hooks ch fs i op sc h1 (tr @ [HookCall f i op]) = (r, h', tr')"
      by simp
    from Cons.IH [OF this] obtain started where
      "tr' = (tr @ [HookCall f i op]) @ started"
      "replay ex ch sc cache (map (\<lambda>func. HookCall func i op) fs) (cb, h1) =
         (r, (cb, h'), started)"
      by blast
    with Inr have "tr' = tr @ (HookCall f i op # started) \<and>
      replay ex ch sc cache (map (\<lambda>func. HookCall func i op) (f # fs)) (cb, h) =
         (r, (cb, h'), HookCall f i op # started)"
      by simp
    then show ?thesis by blast
  qed
qed

lemma as_run_alt:
  "as_run ihs ohs op =
     (if op_type (op\<lparr>is_called_by_executor := False\<rparr>) = ''while'' \<or>
         op_type (op\<lparr>is_called_by_executor := False\<rparr>) = ''conditional_block''
      then (op\<lparr>is_called_by_executor := False\<rparr>)\<lparr>op_output_hooks := ohs, op_input_hooks := ihs\<rparr>
      else op\<lparr>is_called_by_executor := False\<rparr>)"
  by (simp add: as_run_def)

lemma run_one_frame:
  assumes "run_one ex ch i op s = (r, s')"
  shows "m_input_hookfuncs (rs_exec s') = m_input_hookfuncs (rs_exec s)"
    and "m_output_hookfuncs (rs_exec s') = m_output_hookfuncs (rs_exec s)"
    and "m_scope (rs_exec s') = m_scope (rs_exec s)"
    and "m_reuse_cache (rs_exec s') = m_reuse_cache (rs_exec s)"
  using assms
  by (auto simp: run_one_def Let_def split: prod.splits option.splits sum.splits)

lemma run_one_ops:
  assumes "run_one ex ch i op s = (None, s')"
  shows "m_ops (rs_exec s') =
     (m_ops (rs_exec s))
       [i := as_run (m_input_hookfuncs (rs_exec s)) (m_output_hookfuncs (rs_exec s)) op]"
  using assms
  by (auto simp: run_one_def Let_def as_run_alt split: prod.splits option.splits sum.splits)

lemma run_one_replay:
  assumes "run_one ex ch i op s = (r, s')"
  shows "\<exists>started. rs_trace s' = rs_trace s @ started \<and>
           replay ex ch (m_scope (rs_exec s)) (m_reuse_cache (rs_exec s))
             (op_events (m_input_hookfuncs (rs_exec s)) (m_output_hookfuncs (rs_exec s)) i op)
             (m_cluster_buffer (rs_exec s), rs_heap s) =
           (r, (m_cluster_buffer (rs_exec s'), rs_heap s'), started)"
proof -
  define e where "e = rs_exec s"
  define op0 where "op0 = op\<lparr>is_called_by_executor := False\<rparr>"
  define op1 where "op1 = as_run (m_input_hookfuncs e) (m_output_hookfuncs e) op"
  define ins where "ins = map (\<lambda>func. HookCall func i op0) (m_input_hookfuncs e)"
  define outs where "outs = map (\<lambda>func. HookCall func i op1) (m_output_hookfuncs e)"
  define cache where "cache = m_reuse_cache e"
  define cb0 where "cb0 = m_cluster_buffer e"
  have full: "op_events (m_input_hookfuncs e) (m_output_hookfuncs e) i op =
      ins @ (OpRun i op1 # outs)"
    by (simp add: op_events_def ins_def outs_def op0_def op1_def)
  obtain r1 h1 tr1 where c1:
    "call_hooks ch (m_input_hookfuncs e) i op0 (m_scope e) (rs_heap s) (rs_trace s) = (r1, h1, tr1)"
    by (metis prod_cases3)
  from call_hooks_replay [OF c1, of ex cache cb0] obtain st1 where
    st1: "tr1 = rs_trace s @ st1"
      "replay ex ch (m_scope e) cache ins (cb0, rs_heap s) = (r1, (cb0, h1), st1)"
    unfolding ins_def by blast
  show ?thesis
  proof (cases r1)
    case (Some err)
    with assms c1 have res: "r = Some err" "rs_trace s' = tr1" "rs_heap s' = h1"
      "m_cluster_buffer (rs_exec s') = cb0"
      by (auto simp: run_one_def Let_def e_def op0_def cb0_def)
    from st1(2) Some have
      "replay ex ch (m_scope e) cache (ins @ (OpRun i op1 # outs)) (cb0, rs_heap s) =
         (Some err, (cb0, h1), st1)"
      by (simp add: replay_append)
    with res st1(1) full show ?thesis
      unfolding e_def cache_def cb0_def by auto
  next
    case None
    note ins_ok = st1(2) [unfolded None]
    show ?thesis
    proof (cases "m_scope e")
      case no_scope: None
      with assms c1 \<open>r1 = None\<close> have res: "r = Some NullPointer" "rs_trace s' = tr1"
        "rs_heap s' = h1" "m_cluster_buffer (rs_exec s') = cb0"
        by (auto simp: run_one_def Let_def e_def op0_def cb0_def)
      from ins_ok no_scope have
        "replay ex ch (m_scope e) cache (ins @ (OpRun i op1 # outs)) (cb0, rs_heap s) =
           (Some NullPointer, (cb0, h1), st1 @ [])"
        by (simp add: replay_append)
      with res st1(1) full show ?thesis
        unfolding e_def cache_def cb0_def by auto
    next
      case (Some sc)
      show ?thesis
      proof (cases "ex op1 sc h1")
        case (Inl msg)
        with assms c1 \<open>r1 = None\<close> Some have res: "r = Some (External msg)"
          "rs_trace s' = tr1 @ [OpRun i op1]" "rs_heap s' = h1"
          "m_cluster_buffer (rs_exec s') = cb0"
          by (auto simp: run_one_def Let_def e_def op0_def op1_def as_run_alt cb0_def)
        from ins_ok Some Inl have
          "replay ex ch (m_scope e) cache (ins @ (OpRun i op1 # outs)) (cb0, rs_heap s) =
             (Some (External msg), (cb0, h1), st1 @ [OpRun i op1])"
          by (simp add: replay_append)
        with res st1(1) full show ?thesis
          unfolding e_def cache_def cb0_def by auto
      next
        case (Inr h2)
        show ?thesis
        proof (cases "update_buffers cache i (cb0, h2)")
          case upd_failed: (Inl err)
          with assms c1 \<open>r1 = None\<close> Some Inr have res: "r = Some err"
            "rs_trace s' = tr1 @ [OpRun i op1]" "rs_heap s' = h2"
            "m_cluster_buffer (rs_exec s') = cb0"
            by (auto simp: run_one_def Let_def e_def op0_def op1_def as_run_alt cb0_def
                cache_def)
          from ins_ok Some Inr upd_failed have
            "replay ex ch (m_scope e) cache (ins @ (OpRun i op1 # outs)) (cb0, rs_heap s) =
               (Some err, (cb0, h2), st1 @ [OpRun i op1])"
            by (simp add: replay_append)
          with res st1(1) full show ?thesis
            unfolding e_def cache_def cb0_def by auto
        next
          case upd: (Inr s3)
          obtain cb h3 where s3: "s3 = (cb, h3)" by (cases s3)
          obtain r4 h4 tr4 where c4:
            "call_hooks ch (m_output_hookfuncs e) i op1 (m_scope e) h3 (tr1 @ [OpRun i op1]) =
               (r4, h4, tr4)"
            by (metis prod_cases3)
          from call_hooks_replay [OF c4, of ex cache cb] obtain st4 where
            st4: "tr4 = (tr1 @ [OpRun i op1]) @ st4"
              "replay ex ch (m_scope e) cache outs (cb, h3) = (r4, (cb, h4), st4)"
            unfolding outs_def by blast
          from assms c1 \<open>r1 = None\<close> Some Inr upd s3 c4 have res: "r = r4"
            "rs_trace s' = tr4" "rs_heap s' = h4" "m_cluster_buffer (rs_exec s') = cb"
            by (auto simp: run_one_def Let_def e_def op0_def op1_def as_run_alt cb0_def
                cache_def)
          from ins_ok Some Inr upd s3 st4(2) have
            "replay ex ch (m_scope e) cache (ins @ (OpRun i op1 # outs)) (cb0, rs_heap s) =
               (r4, (cb, h4), st1 @ (OpRun i op1 # st4))"
            by (simp add: replay_append)
          with res st1(1) st4(1) full show ?thesis
            unfolding e_def cache_def cb0_def by auto
        qed
      qed
    qed
  qed
qed

lemma run_ops_replay:
  assumes "run_ops ex ch i ops s = (r, s')"
  shows "\<exists>started. rs_trace s' = rs_trace s @ started \<and>
           replay ex ch (m_scope (rs_exec s)) (m_reuse_cache (rs_exec s))
             (events_from (m_input_hookfuncs (rs_exec s)) (m_output_hookfuncs (rs_exec s)) i ops)
             (m_cluster_buffer (rs_exec s), rs_heap s) =
           (r, (m_cluster_buffer (rs_exec s'), rs_heap s'), started)"
  using assms
proof (induction ops arbitrary: i s)
  case Nil
  then show ?case by simp
next
  case (Cons op ops)
  obtain r1 s1 where one: "run_one ex ch i op s = (r1, s1)" by (cases "run_one ex ch i op s")
  from run_one_replay [OF one] obtain st1 where st1:
    "rs_trace s1 = rs_trace s @ st1"
    "replay ex ch (m_scope (rs_exec s)) (m_reuse_cache (rs_exec s))
       (op_events (m_input_hookfuncs (rs_exec s)) (m_output_hookfuncs (rs_exec s)) i op)
       (m_cluster_buffer (rs_exec s), rs_heap s) =
     (r1, (m_cluster_buffer (rs_exec s1), rs_heap s1), st1)"
    by blast
  show ?case
  proof (cases r1)
    case (Some err)
    with Cons.prems one have "s' = s1" "r = Some err" by auto
    with st1 Some show ?thesis by (simp add: replay_append)
  next
    case None
    from None Cons.prems one have rest: "run_ops ex ch (Suc i) ops s1 = (r, s')" by simp
    from run_one_frame [OF one] have same:
      "m_input_hookfuncs (rs_exec s1) = m_input_hookfuncs (rs_exec s)"
      "m_output_hookfuncs (rs_exec s1) = m_output_hookfuncs (rs_exec s)"
      "m_scope (rs_exec s1) = m_scope (rs_exec s)"
      "m_reuse_cache (rs_exec s1) = m_reuse_cache (rs_exec s)"
      by simp_all
    from Cons.IH [OF rest] obtain st2 where st2:
      "rs_trace s' = rs_trace s1 @ st2"
      "replay ex ch (m_scope (rs_exec s)) (m_reuse_cache (rs_exec s))
         (events_from (m_input_hookfuncs (rs_exec s)) (m_output_hookfuncs (rs_exec s))
            (Suc i) ops)
         (m_cluster_buffer (rs_exec s1), rs_heap s1) =
       (r, (m_cluster_buffer (rs_exec s'), rs_heap s'), st2)"
      unfolding same by blast
    from st1 st2 None have "rs_trace s' = rs_trace s @ (st1 @ st2) \<and>
      replay ex ch (m_scope (rs_exec s)) (m_reuse_cache (rs_exec s))
         (events_from (m_input_hookfuncs (rs_exec s)) (m_output_hookfuncs (rs_exec s))
            i (op # ops))
         (m_cluster_buffer (rs_exec s), rs_heap s) =
       (r, (m_cluster_buffer (rs_exec s'), rs_heap s'), st1 @ st2)"
      by (simp add: replay_append)
    then show ?thesis by blast
  qed
qed

lemma run_ops_frame:
  assumes "run_ops ex ch i ops s = (r, s')"
  shows "m_input_hookfuncs (rs_exec s') = m_input_hookfuncs (rs_exec s) \<and>
         m_output_hookfuncs (rs_exec s') = m_output_hookfuncs (rs_exec s) \<and>
         m_scope (rs_exec s') = m_scope (rs_exec s) \<and>
         m_reuse_cache (rs_exec s') = m_reuse_cache (rs_exec s)"
  using assms
proof (induction ops arbitrary: i s)
  case Nil
  then show ?case by simp
next
  case (Cons op ops)
  obtain r1 s1 where one: "run_one ex ch i op s = (r1, s1)" by (cases "run_one ex ch i op s")
  show ?case
  proof (cases r1)
    case (Some err)
    with Cons.prems one have "s' = s1" by auto
    with run_one_frame [OF one] show ?thesis by simp
  next
    case None
    with Cons.prems one have "run_ops ex ch (Suc i) ops s1 = (r, s')" by simp
    from Cons.IH [OF this] run_one_frame [OF one] show ?thesis by simp
  qed
qed

lemma run_ops_ops:
  assumes "run_ops ex ch i ops s = (None, s')"
    and "m_ops (rs_exec s) = pre @ ops" and "length pre = i"
  shows "m_ops (rs_exec s') =
     pre @ map (as_run (m_input_hookfuncs (rs_exec s)) (m_output_hookfuncs (rs_exec s))) ops"
  using assms
proof (induction ops arbitrary: i s pre)
  case Nil
  then show ?case by simp
next
  case (Cons op ops)
  let ?op1 = "as_run (m_input_hookfuncs (rs_exec s)) (m_output_hookfuncs (rs_exec s)) op"
  obtain r1 s1 where one: "run_one ex ch i op s = (r1, s1)" by (cases "run_one ex ch i op s")
  with Cons.prems(1) have r1: "r1 = None" by (cases r1) auto
  with Cons.prems(1) one have rest: "run_ops ex ch (Suc i) ops s1 = (None, s')" by simp
  from run_one_ops [OF one [unfolded r1]] Cons.prems(2,3)
  have ops1: "m_ops (rs_exec s1) = (pre @ [?op1]) @ ops"
    by (simp add: list_update_append)
  have len: "length (pre @ [?op1]) = Suc i" using Cons.prems(3) by simp
  from run_one_frame [OF one] have same:
    "m_input_hookfuncs (rs_exec s1) = m_input_hookfuncs (rs_exec s)"
    "m_output_hookfuncs (rs_exec s1) = m_output_hookfuncs (rs_exec s)"
    by simp_all
  from Cons.IH [OF rest ops1 len] show ?case unfolding same by simp
qed

lemma executed_append: "executed (xs @ ys) = executed xs @ executed ys"
  by (induction xs rule: executed.induct) simp_all

lemma executed_hook_calls: "executed (map (\<lambda>func. HookCall func i op) fs) = []"
  by (induction fs) simp_all

lemma op_type_as_run: "op_type (as_run ihs ohs op) = op_type op"
  by (simp add: as_run_def)

lemma executed_events_from:
  "executed (events_from ihs ohs i ops) = zip [i..<i + length ops] (map op_type ops)"
proof (induction ops arbitrary: i)
  case Nil
  then show ?case by simp
next
  case (Cons op ops)
  have "i < i + length (op # ops)" by simp
  then have "[i..<i + length (op # ops)] = i # [Suc i..<i + length (op # ops)]"
    by (rule upt_conv_Cons)
  then have "[i..<i + length (op # ops)] = i # [Suc i..<Suc i + length ops]"
    by simp
  with Cons.IH [of "Suc i"] show ?case
    by (simp add: op_events_def executed_append executed_hook_calls op_type_as_run)
qed

lemma executed_prefix: "prefix xs ys \<Longrightarrow> prefix (executed xs) (executed ys)"
  by (auto simp: prefix_def executed_append)

text \<open>
  A run is the replay of the events of its operators: it returns the failure of the
  replay, has added to the trace the events the replay has started, and ends with the
  buffers and the heap of the replay.  It changes neither the scope nor the hook lists
  nor the recorded entries, and when it completes every operator of the list is the
  operator as it has run.
\<close>

lemma Run_replay:
  assumes "Run ex ch s = (r, s')"
  shows "\<exists>evs. rs_trace s' = rs_trace s @ evs \<and>
           prefix evs (events_from (m_input_hookfuncs (rs_exec s))
                         (m_output_hookfuncs (rs_exec s)) 0 (m_ops (rs_exec s))) \<and>
           (r = None \<longrightarrow> evs = events_from (m_input_hookfuncs (rs_exec s))
                         (m_output_hookfuncs (rs_exec s)) 0 (m_ops (rs_exec s))) \<and>
           replay ex ch (m_scope (rs_exec s)) (m_reuse_cache (rs_exec s))
             (events_from (m_input_hookfuncs (rs_exec s)) (m_output_hookfuncs (rs_exec s)) 0
                (m_ops (rs_exec s)))
             (m_cluster_buffer (rs_exec s), rs_heap s) =
           (r, (m_cluster_buffer (rs_exec s'), rs_heap s'), evs) \<and>
           (r = None \<longrightarrow>
              m_ops (rs_exec s') =
                map (as_run (m_input_hookfuncs (rs_exec s)) (m_output_hookfuncs (rs_exec s)))
                  (m_ops (rs_exec s)))"
proof -
  from assms have run: "run_ops ex ch 0 (m_ops (rs_exec s)) s = (r, s')"
    by (simp add: Run_def)
  from run_ops_replay [OF run] obtain evs where evs:
    "rs_trace s' = rs_trace s @ evs"
    "replay ex ch (m_scope (rs_exec s)) (m_reuse_cache (rs_exec s))
       (events_from (m_input_hookfuncs (rs_exec s)) (m_output_hookfuncs (rs_exec s)) 0
          (m_ops (rs_exec s)))
       (m_cluster_buffer (rs_exec s), rs_heap s) =
     (r, (m_cluster_buffer (rs_exec s'), rs_heap s'), evs)"
    by blast
  from replay_started [OF evs(2)] have started:
    "prefix evs (events_from (m_input_hookfuncs (rs_exec s))
                         (m_output_hookfuncs (rs_exec s)) 0 (m_ops (rs_exec s)))"
    "r = None \<longrightarrow> evs = events_from (m_input_hookfuncs (rs_exec s))
                         (m_output_hookfuncs (rs_exec s)) 0 (m_ops (rs_exec s))"
    by simp_all
  have ops: "m_ops (rs_exec s') =
      map (as_run (m_input_hookfuncs (rs_exec s)) (m_output_hookfuncs (rs_exec s)))
        (m_ops (rs_exec s))" if "r = None"
    using run_ops_ops [of ex ch 0 "m_ops (rs_exec s)" s s' "[]"] run that by simp
  from evs started ops show ?thesis by blast
qed

lemma create_ops_loggable:
  assumes "create_ops ds ops = Inr res"
  shows "\<forall>d \<in> set ds. \<not> not_feed_fetch (desc_type d) \<longrightarrow> \<not> isl (log_skip d)"
  using assms
proof (induction ds arbitrary: ops)
  case Nil
  then show ?case by simp
next
  case (Cons d ds)
  show ?case
  proof (cases "not_feed_fetch (desc_type d)")
    case True
    with Cons.prems have "create_ops ds (ops @ [CreateOp d]) = Inr res"
      by (simp add: not_feed_fetch_def)
    from Cons.IH [OF this] True show ?thesis by simp
  next
    case False
    show ?thesis
    proof (cases "log_skip d")
      case (Inl e)
      with False Cons.prems show ?thesis by (auto simp: not_feed_fetch_def)
    next
      case (Inr line)
      with False Cons.prems have "create_ops ds ops = Inr res"
        by (auto simp: not_feed_fetch_def)
      from Cons.IH [OF this] Inr show ?thesis by simp
    qed
  qed
qed

lemma Prepare_created:
  assumes "Block desc block_id = Inr b"
    and "Prepare scope desc block_id e h = Inr (e', h')"
  shows "create_ops (AllOps b) (m_ops e) = Inr (m_ops e')"
  using assms
  by (cases scope; cases "new_Scope h"; cases "create_ops (AllOps b) (m_ops e)")
     (auto simp: Prepare_def CreateOps_def)

text \<open>
  Claim C2.  For a block id that names a block of the program, \<open>Prepare\<close> on a new
  executor returns exactly when the log line of every \<open>feed\<close> or \<open>fetch\<close> descriptor of
  the block can be written (the descriptor has a first \<open>X\<close> input and a first \<open>Out\<close>
  output).  When it returns, the operator list has one operator per descriptor of the
  block, in declaration order, for exactly the descriptors whose type is neither \<open>feed\<close>
  nor \<open>fetch\<close>, and no operator of the list has the type \<open>feed\<close> or \<open>fetch\<close>.  A run
  over that list executes the operators one after the other in declaration order: the
  executions it has started are an initial part of the list of the remaining descriptors,
  and when the run completes they are that list, each operator executed exactly once;
  and the failure, the cluster buffers and the heap the run ends with are those of
  applying, event after event, the hooks and the operators of that list in this order.
\<close>

theorem operators_created_and_run_in_declaration_order:
  assumes "Block desc block_id = Inr b"
  shows "((\<exists>e h'. Prepare scope desc block_id new_executor h = Inr (e, h')) \<longleftrightarrow>
          (\<forall>d \<in> set (AllOps b). \<not> not_feed_fetch (desc_type d) \<longrightarrow> \<not> isl (log_skip d))) \<and>
     (\<forall>e h'. Prepare scope desc block_id new_executor h = Inr (e, h') \<longrightarrow>
        m_ops e = map CreateOp (filter (\<lambda>d. not_feed_fetch (desc_type d)) (AllOps b)) \<and>
        (\<forall>op \<in> set (m_ops e). op_type op \<noteq> ''feed'' \<and> op_type op \<noteq> ''fetch'') \<and>
        (\<forall>ex ch s r s'. m_ops (rs_exec s) = m_ops e \<and> Run ex ch s = (r, s') \<longrightarrow>
           prefix (executed (drop (length (rs_trace s)) (rs_trace s')))
             (zip [0..<length (m_ops e)] (filter not_feed_fetch (map desc_type (AllOps b)))) \<and>
           (r = None \<longrightarrow>
              executed (drop (length (rs_trace s)) (rs_trace s')) =
                zip [0..<length (m_ops e)]
                  (filter not_feed_fetch (map desc_type (AllOps b)))) \<and>
           replay ex ch (m_scope (rs_exec s)) (m_reuse_cache (rs_exec s))
             (events_from (m_input_hookfuncs (rs_exec s)) (m_output_hookfuncs (rs_exec s)) 0
                (m_ops e))
             (m_cluster_buffer (rs_exec s), rs_heap s) =
           (r, (m_cluster_buffer (rs_exec s'), rs_heap s'),
            drop (length (rs_trace s)) (rs_trace s'))))"
proof -
  define ops where "ops = map CreateOp (filter (\<lambda>d. not_feed_fetch (desc_type d)) (AllOps b))"
  define loggable where "loggable \<longleftrightarrow>
    (\<forall>d \<in> set (AllOps b). \<not> not_feed_fetch (desc_type d) \<longrightarrow> \<not> isl (log_skip d))"
  have new: "m_ops new_executor = []" by (simp add: new_executor_def)
  have returns: "\<exists>e h'. Prepare scope desc block_id new_executor h = Inr (e, h')" if loggable
  proof -
    from that have "create_ops (AllOps b) (m_ops new_executor) = Inr ops"
      unfolding loggable_def new ops_def by (simp add: create_ops_returns)
    from Prepare_returns [OF assms this] show ?thesis by blast
  qed
  have created: "loggable \<and> m_ops e = ops"
    if "Prepare scope desc block_id new_executor h = Inr (e, h')" for e h'
  proof -
    from Prepare_created [OF assms that]
    have c: "create_ops (AllOps b) [] = Inr (m_ops e)" by (simp add: new)
    from create_ops_loggable [OF c] have l: loggable unfolding loggable_def .
    then have "create_ops (AllOps b) [] = Inr ops"
      unfolding loggable_def ops_def by (simp add: create_ops_returns)
    with c l show ?thesis by simp
  qed
  have types: "map op_type ops = filter not_feed_fetch (map desc_type (AllOps b))"
    by (simp add: ops_def CreateOp_def filter_map comp_def)
  have no_io: "\<forall>op \<in> set ops. op_type op \<noteq> ''feed'' \<and> op_type op \<noteq> ''fetch''"
    by (auto simp: ops_def CreateOp_def not_feed_fetch_def)
  have run: "prefix (executed (drop (length (rs_trace s)) (rs_trace s')))
          (zip [0..<length ops] (filter not_feed_fetch (map desc_type (AllOps b)))) \<and>
        (r = None \<longrightarrow>
           executed (drop (length (rs_trace s)) (rs_trace s')) =
             zip [0..<length ops] (filter not_feed_fetch (map desc_type (AllOps b)))) \<and>
        replay ex ch (m_scope (rs_exec s)) (m_reuse_cache (rs_exec s))
          (events_from (m_input_hookfuncs (rs_exec s)) (m_output_hookfuncs (rs_exec s)) 0 ops)
          (m_cluster_buffer (rs_exec s), rs_heap s) =
        (r, (m_cluster_buffer (rs_exec s'), rs_heap s'),
         drop (length (rs_trace s)) (rs_trace s'))"
    if "m_ops (rs_exec s) = ops" and "Run ex ch s = (r, s')" for ex ch s r s'
  proof -
    from Run_replay [OF that(2)] that(1) obtain evs where
      evs: "rs_trace s' = rs_trace s @ evs"
        "prefix evs (events_from (m_input_hookfuncs (rs_exec s))
                         (m_output_hookfuncs (rs_exec s)) 0 ops)"
        "r = None \<longrightarrow> evs = events_from (m_input_hookfuncs (rs_exec s))
                         (m_output_hookfuncs (rs_exec s)) 0 ops"
        "replay ex ch (m_scope (rs_exec s)) (m_reuse_cache (rs_exec s))
          (events_from (m_input_hookfuncs (rs_exec s)) (m_output_hookfuncs (rs_exec s)) 0 ops)
          (m_cluster_buffer (rs_exec s), rs_heap s) =
        (r, (m_cluster_buffer (rs_exec s'), rs_heap s'), evs)"
      by auto
    from evs(1) have d: "drop (length (rs_trace s)) (rs_trace s') = evs" by simp
    from executed_prefix [OF evs(2)] evs(3,4) show ?thesis
      unfolding d by (auto simp: executed_events_from types)
  qed
  have first: "(\<exists>e h'. Prepare scope desc block_id new_executor h = Inr (e, h')) \<longleftrightarrow> loggable"
    using returns created by blast
  have second: "m_ops e = ops \<and>
      (\<forall>op \<in> set (m_ops e). op_type op \<noteq> ''feed'' \<and> op_type op \<noteq> ''fetch'') \<and>
      (\<forall>ex ch s r s'. m_ops (rs_exec s) = m_ops e \<and> Run ex ch s = (r, s') \<longrightarrow>
         prefix (executed (drop (length (rs_trace s)) (rs_trace s')))
           (zip [0..<length (m_ops e)] (filter not_feed_fetch (map desc_type (AllOps b)))) \<and>
         (r = None \<longrightarrow>
            executed (drop (length (rs_trace s)) (rs_trace s')) =
              zip [0..<length (m_ops e)]
                (filter not_feed_fetch (map desc_type (AllOps b)))) \<and>
         replay ex ch (m_scope (rs_exec s)) (m_reuse_cache (rs_exec s))
           (events_from (m_input_hookfuncs (rs_exec s)) (m_output_hookfuncs (rs_exec s)) 0
              (m_ops e))
           (m_cluster_buffer (rs_exec s), rs_heap s) =
         (r, (m_cluster_buffer (rs_exec s'), rs_heap s'),
          drop (length (rs_trace s)) (rs_trace s')))"
    if "Prepare scope desc block_id new_executor h = Inr (e, h')" for e h'
  proof -
    from created [OF that] have e: "m_ops e = ops" by simp
    from no_io run show ?thesis unfolding e by blast
  qed
  from first second show ?thesis
    unfolding loggable_def ops_def [symmetric] by blast
qed

text \<open>
  A block that declares \<open>feed\<close>, \<open>A\<close>, \<open>B\<close> and \<open>fetch\<close>: \<open>Prepare\<close> returns, the list
  holds \<open>A\<close> and \<open>B\<close>, and a run with the input hook 1 executes \<open>A\<close> at position 0 and
  then \<open>B\<close> at position 1; what the hook and the operators have written down, in the
  order they ran, is 1, 10, 1, 10.  For the block whose \<open>feed\<close> descriptor has no input
  \<open>X\<close>, \<open>Prepare\<close> fails.
\<close>

theorem operators_created_and_run_in_declaration_order_witness:
  "map op_type
     (m_ops (fst (projr (Prepare None [feed_fetch_block] 0 new_executor demo_heap)))) =
     [''A'', ''B''] \<and>
   fst (Run logging_op logging_hook
     \<lparr>rs_exec = RegisterInputHook 1
        (fst (projr (Prepare None [feed_fetch_block] 0 new_executor demo_heap))),
      rs_heap = demo_heap, rs_trace = []\<rparr>) = None \<and>
   executed (rs_trace (snd (Run logging_op logging_hook
     \<lparr>rs_exec = RegisterInputHook 1
        (fst (projr (Prepare None [feed_fetch_block] 0 new_executor demo_heap))),
      rs_heap = demo_heap, rs_trace = []\<rparr>))) = [(0, ''A''), (1, ''B'')] \<and>
   written (variables (rs_heap (snd (Run logging_op logging_hook
     \<lparr>rs_exec = RegisterInputHook 1
        (fst (projr (Prepare None [feed_fetch_block] 0 new_executor demo_heap))),
      rs_heap = demo_heap, rs_trace = []\<rparr>))) 0) = [1, 10, 1, 10] \<and>
   Prepare None [bare_feed_block] 0 new_executor demo_heap = Inl (NotFound ''X'')"
proof -
  define e where "e = fst (projr (Prepare None [feed_fetch_block] 0 new_executor demo_heap))"
  define h' where "h' = snd (projr (Prepare None [feed_fetch_block] 0 new_executor demo_heap))"
  define s where "s = \<lparr>rs_exec = RegisterInputHook 1 e, rs_heap = demo_heap, rs_trace = []\<rparr>"
  define run where "run = Run logging_op logging_hook s"
  have blk: "Block [feed_fetch_block] 0 = Inr feed_fetch_block"
    by (simp add: Block_def)
  have prep: "Prepare None [feed_fetch_block] 0 new_executor demo_heap = Inr (e, h')"
    unfolding e_def h'_def
    by (simp add: Prepare_def CreateOps_def Block_def new_Scope_def feed_fetch_block_def
        log_skip_def first_of_def)
  have e: "m_scope e = Some 0" "m_reuse_cache e = []" "m_cluster_buffer e = []"
    "m_input_hookfuncs e = []" "m_output_hookfuncs e = []"
    unfolding e_def
    by (simp_all add: Prepare_def CreateOps_def Block_def new_Scope_def feed_fetch_block_def
        log_skip_def first_of_def new_executor_def demo_heap_def)
  have s: "m_ops (rs_exec s) = m_ops e \<and> Run logging_op logging_hook s = (fst run, snd run)"
    by (simp add: s_def run_def RegisterInputHook_def)
  note all = operators_created_and_run_in_declaration_order
    [OF blk, of None demo_heap, THEN conjunct2, rule_format, OF prep]
  from all have ops: "m_ops e =
      [CreateOp \<lparr>desc_type = ''A'', desc_inputs = [(''X'', [''x''])],
                 desc_outputs = [(''Out'', [''y''])]\<rparr>,
       CreateOp \<lparr>desc_type = ''B'', desc_inputs = [(''X'', [''y''])],
                 desc_outputs = [(''Out'', [''z''])]\<rparr>]"
    by (simp add: feed_fetch_block_def not_feed_fetch_def)
  from all s have eq:
    "replay logging_op logging_hook (m_scope (rs_exec s)) (m_reuse_cache (rs_exec s))
       (events_from (m_input_hookfuncs (rs_exec s)) (m_output_hookfuncs (rs_exec s)) 0 (m_ops e))
       (m_cluster_buffer (rs_exec s), rs_heap s) =
      (fst run, (m_cluster_buffer (rs_exec (snd run)), rs_heap (snd run)),
       drop (length (rs_trace s)) (rs_trace (snd run)))"
    by blast
  have val:
    "fst (replay logging_op logging_hook (m_scope (rs_exec s)) (m_reuse_cache (rs_exec s))
       (events_from (m_input_hookfuncs (rs_exec s)) (m_output_hookfuncs (rs_exec s)) 0 (m_ops e))
       (m_cluster_buffer (rs_exec s), rs_heap s)) = None"
    "written (variables (snd (fst (snd
       (replay logging_op logging_hook (m_scope (rs_exec s)) (m_reuse_cache (rs_exec s))
       (events_from (m_input_hookfuncs (rs_exec s)) (m_output_hookfuncs (rs_exec s)) 0 (m_ops e))
       (m_cluster_buffer (rs_exec s), rs_heap s))))) 0) = [1, 10, 1, 10]"
    unfolding ops
    by (simp_all add: s_def e RegisterInputHook_def op_events_def as_run_def CreateOp_def
        logging_op_def logging_hook_def write_down_def update_buffers_def demo_heap_def)
  from val have "fst run = None \<and> written (variables (rs_heap (snd run)) 0) = [1, 10, 1, 10]"
    unfolding eq by simp
  moreover from this all have
    "executed (drop (length (rs_trace s)) (rs_trace (snd run))) =
       zip [0..<length (m_ops e)]
         (filter not_feed_fetch (map desc_type (AllOps feed_fetch_block)))"
    using s by blast
  then have "executed (rs_trace (snd run)) = [(0, ''A''), (1, ''B'')]"
    unfolding ops by (simp add: s_def feed_fetch_block_def not_feed_fetch_def upt_rec)
  moreover have "map op_type (m_ops e) = [''A'', ''B'']"
    unfolding ops by (simp add: CreateOp_def)
  moreover have "Prepare None [bare_feed_block] 0 new_executor demo_heap = Inl (NotFound ''X'')"
    by (simp add: Prepare_def CreateOps_def Block_def new_Scope_def bare_feed_block_def
        log_skip_def first_of_def new_executor_def)
  ultimately show ?thesis
    unfolding run_def s_def e_def by blast
qed


text \<open>
  Claim C3.  A run is, operator after operator in list order, the sequence of
  \<open>op_events\<close>: the calls of all input hooks in registration order, then the execution
  of the operator, then the calls of all output hooks in registration order.  The
  operator that executes holds the current input and output hook lists of the executor
  if and only if its type is \<open>while\<close> or \<open>conditional_block\<close>, and it holds them before
  it executes; the input hooks are called with the operator as it is before that, the
  output hooks with the operator as it has executed.  The events are what the run does:
  the failure it returns, the cluster buffers and the heap it ends with are those of
  applying each hook to its operator and the scope, and each operator to the scope, in
  the order of that sequence, and what it has added to the trace are the events that
  have started, an initial part of the sequence when the run fails and all of it when
  it completes; then every operator of the list is the operator as it has executed.
\<close>

theorem hooks_called_around_each_operator:
  assumes "Run ex ch s = (r, s')"
    and "ihs = m_input_hookfuncs (rs_exec s)" and "ohs = m_output_hookfuncs (rs_exec s)"
  shows "\<exists>evs. rs_trace s' = rs_trace s @ evs \<and>
           prefix evs (events_from ihs ohs 0 (m_ops (rs_exec s))) \<and>
           (r = None \<longrightarrow> evs = events_from ihs ohs 0 (m_ops (rs_exec s))) \<and>
           replay ex ch (m_scope (rs_exec s)) (m_reuse_cache (rs_exec s))
             (events_from ihs ohs 0 (m_ops (rs_exec s)))
             (m_cluster_buffer (rs_exec s), rs_heap s) =
           (r, (m_cluster_buffer (rs_exec s'), rs_heap s'), evs) \<and>
           (r = None \<longrightarrow> m_ops (rs_exec s') = map (as_run ihs ohs) (m_ops (rs_exec s)))"
  using Run_replay [OF assms(1)] assms(2,3) by simp


text \<open>
  Input hooks 1 and 2 and output hook 3, registered in that order, and the operators
  \<open>A\<close> and \<open>while\<close>: the trace is \<open>h1(A), h2(A), A.Run(), h3(A)\<close> and then the same for
  the \<open>while\<close> operator, which runs with the hook lists in it.  The hooks and the
  operators have written down, in the order they ran, 1, 2, 10, 3 for \<open>A\<close>, which held
  no hook, and 1, 2, 13, 3 for the \<open>while\<close> operator, which held the three hooks.
\<close>

theorem hooks_called_around_each_operator_witness:
  "Run logging_op logging_hook
     \<lparr>rs_exec = RegisterOutputHook 3 (RegisterInputHook 2 (RegisterInputHook 1
                  (demo_executor [demo_op ''A'', demo_op ''while'']))),
      rs_heap = demo_heap, rs_trace = []\<rparr> =
   (None,
    \<lparr>rs_exec = RegisterOutputHook 3 (RegisterInputHook 2 (RegisterInputHook 1
                  (demo_executor
                     [(demo_op ''A'')\<lparr>is_called_by_executor := False\<rparr>,
                      (demo_op ''while'')\<lparr>is_called_by_executor := False,
                         op_input_hooks := [1, 2], op_output_hooks := [3]\<rparr>]))),
      rs_heap = demo_heap\<lparr>variables := (variables demo_heap)
                  (0 := DenseTensor \<lparr>holder = None, dims = [1, 2, 10, 3, 1, 2, 13, 3]\<rparr>)\<rparr>,
      rs_trace =
        [HookCall 1 0 ((demo_op ''A'')\<lparr>is_called_by_executor := False\<rparr>),
         HookCall 2 0 ((demo_op ''A'')\<lparr>is_called_by_executor := False\<rparr>),
         OpRun 0 ((demo_op ''A'')\<lparr>is_called_by_executor := False\<rparr>),
         HookCall 3 0 ((demo_op ''A'')\<lparr>is_called_by_executor := False\<rparr>),
         HookCall 1 1 ((demo_op ''while'')\<lparr>is_called_by_executor := False\<rparr>),
         HookCall 2 1 ((demo_op ''while'')\<lparr>is_called_by_executor := False\<rparr>),
         OpRun 1 ((demo_op ''while'')\<lparr>is_called_by_executor := False,
                    op_input_hooks := [1, 2], op_output_hooks := [3]\<rparr>),
         HookCall 3 1 ((demo_op ''while'')\<lparr>is_called_by_executor := False,
                    op_input_hooks := [1, 2], op_output_hooks := [3]\<rparr>)]\<rparr>)"
proof -
  define e where "e = RegisterOutputHook 3 (RegisterInputHook 2 (RegisterInputHook 1
                  (demo_executor [demo_op ''A'', demo_op ''while''])))"
  define s where "s = \<lparr>rs_exec = e, rs_heap = demo_heap, rs_trace = []\<rparr>"
  define run where "run = Run logging_op logging_hook s"
  have e: "m_scope e = Some 0" "m_reuse_cache e = []" "m_cluster_buffer e = []"
    "m_input_hookfuncs e = [1, 2]" "m_output_hookfuncs e = [3]"
    "m_ops e = [demo_op ''A'', demo_op ''while'']"
    by (simp_all add: e_def demo_executor_def new_executor_def RegisterInputHook_def
        RegisterOutputHook_def)
  have "Run logging_op logging_hook s = (fst run, snd run)" by (simp add: run_def)
  from hooks_called_around_each_operator [OF this refl refl] obtain evs where all:
    "rs_trace (snd run) = rs_trace s @ evs \<and>
     prefix evs (events_from (m_input_hookfuncs (rs_exec s)) (m_output_hookfuncs (rs_exec s)) 0
       (m_ops (rs_exec s))) \<and>
     (fst run = None \<longrightarrow>
        evs = events_from (m_input_hookfuncs (rs_exec s)) (m_output_hookfuncs (rs_exec s)) 0
          (m_ops (rs_exec s))) \<and>
     replay logging_op logging_hook (m_scope (rs_exec s)) (m_reuse_cache (rs_exec s))
       (events_from (m_input_hookfuncs (rs_exec s)) (m_output_hookfuncs (rs_exec s)) 0
          (m_ops (rs_exec s)))
       (m_cluster_buffer (rs_exec s), rs_heap s) =
     (fst run, (m_cluster_buffer (rs_exec (snd run)), rs_heap (snd run)), evs) \<and>
     (fst run = None \<longrightarrow>
       m_ops (rs_exec (snd run)) =
         map (as_run (m_input_hookfuncs (rs_exec s)) (m_output_hookfuncs (rs_exec s)))
           (m_ops (rs_exec s)))" ..
  note evs = all [THEN conjunct1] all [THEN conjunct2, THEN conjunct2, THEN conjunct2, THEN conjunct1]
    all [THEN conjunct2, THEN conjunct2, THEN conjunct2, THEN conjunct2]
  have val:
    "replay logging_op logging_hook (m_scope (rs_exec s)) (m_reuse_cache (rs_exec s))
       (events_from (m_input_hookfuncs (rs_exec s)) (m_output_hookfuncs (rs_exec s)) 0
          (m_ops (rs_exec s)))
       (m_cluster_buffer (rs_exec s), rs_heap s) =
     (None,
      ([], demo_heap\<lparr>variables := (variables demo_heap)
                  (0 := DenseTensor \<lparr>holder = None, dims = [1, 2, 10, 3, 1, 2, 13, 3]\<rparr>)\<rparr>),
        [HookCall 1 0 ((demo_op ''A'')\<lparr>is_called_by_executor := False\<rparr>),
         HookCall 2 0 ((demo_op ''A'')\<lparr>is_called_by_executor := False\<rparr>),
         OpRun 0 ((demo_op ''A'')\<lparr>is_called_by_executor := False\<rparr>),
         HookCall 3 0 ((demo_op ''A'')\<lparr>is_called_by_executor := False\<rparr>),
         HookCall 1 1 ((demo_op ''while'')\<lparr>is_called_by_executor := False\<rparr>),
         HookCall 2 1 ((demo_op ''while'')\<lparr>is_called_by_executor := False\<rparr>),
         OpRun 1 ((demo_op ''while'')\<lparr>is_called_by_executor := False,
                    op_input_hooks := [1, 2], op_output_hooks := [3]\<rparr>),
         HookCall 3 1 ((demo_op ''while'')\<lparr>is_called_by_executor := False,
                    op_input_hooks := [1, 2], op_output_hooks := [3]\<rparr>)])"
    by (simp add: s_def e op_events_def as_run_def demo_op_def CreateOp_def
        logging_op_def logging_hook_def write_down_def update_buffers_def demo_heap_def)
  from val have ok: "fst run = None"
    and cb: "m_cluster_buffer (rs_exec (snd run)) = []"
    and hp: "rs_heap (snd run) = demo_heap\<lparr>variables := (variables demo_heap)
                  (0 := DenseTensor \<lparr>holder = None, dims = [1, 2, 10, 3, 1, 2, 13, 3]\<rparr>)\<rparr>"
    and tr: "evs =
        [HookCall 1 0 ((demo_op ''A'')\<lparr>is_called_by_executor := False\<rparr>),
         HookCall 2 0 ((demo_op ''A'')\<lparr>is_called_by_executor := False\<rparr>),
         OpRun 0 ((demo_op ''A'')\<lparr>is_called_by_executor := False\<rparr>),
         HookCall 3 0 ((demo_op ''A'')\<lparr>is_called_by_executor := False\<rparr>),
         HookCall 1 1 ((demo_op ''while'')\<lparr>is_called_by_executor := False\<rparr>),
         HookCall 2 1 ((demo_op ''while'')\<lparr>is_called_by_executor := False\<rparr>),
         OpRun 1 ((demo_op ''while'')\<lparr>is_called_by_executor := False,
                    op_input_hooks := [1, 2], op_output_hooks := [3]\<rparr>),
         HookCall 3 1 ((demo_op ''while'')\<lparr>is_called_by_executor := False,
                    op_input_hooks := [1, 2], op_output_hooks := [3]\<rparr>)]"
    unfolding evs(2) by simp_all
  from evs(3) ok have ops: "m_ops (rs_exec (snd run)) =
      [(demo_op ''A'')\<lparr>is_called_by_executor := False\<rparr>,
       (demo_op ''while'')\<lparr>is_called_by_executor := False,
          op_input_hooks := [1, 2], op_output_hooks := [3]\<rparr>]"
    by (simp add: s_def e as_run_def demo_op_def CreateOp_def)
  have frame: "m_input_hookfuncs (rs_exec (snd run)) = [1, 2] \<and>
     m_output_hookfuncs (rs_exec (snd run)) = [3] \<and>
     m_scope (rs_exec (snd run)) = Some 0 \<and> m_reuse_cache (rs_exec (snd run)) = []"
    using run_ops_frame [of logging_op logging_hook 0 "m_ops e" s "fst run" "snd run"]
    by (simp add: run_def Run_def s_def e)
  have "rs_exec (snd run) = RegisterOutputHook 3 (RegisterInputHook 2 (RegisterInputHook 1
                  (demo_executor
                     [(demo_op ''A'')\<lparr>is_called_by_executor := False\<rparr>,
                      (demo_op ''while'')\<lparr>is_called_by_executor := False,
                         op_input_hooks := [1, 2], op_output_hooks := [3]\<rparr>])))"
    using frame ops cb
    by (simp add: demo_executor_def new_executor_def RegisterInputHook_def
        RegisterOutputHook_def executor.equality)
  moreover have "rs_trace (snd run) = evs" using evs(1) by (simp add: s_def)
  moreover have "snd run = \<lparr>rs_exec = rs_exec (snd run), rs_heap = rs_heap (snd run),
      rs_trace = rs_trace (snd run)\<rparr>"
    by simp
  ultimately have "run = (None, \<lparr>rs_exec = RegisterOutputHook 3 (RegisterInputHook 2
      (RegisterInputHook 1
                  (demo_executor
                     [(demo_op ''A'')\<lparr>is_called_by_executor := False\<rparr>,
                      (demo_op ''while'')\<lparr>is_called_by_executor := False,
                         op_input_hooks := [1, 2], op_output_hooks := [3]\<rparr>]))),
      rs_heap = demo_heap\<lparr>variables := (variables demo_heap)
                  (0 := DenseTensor \<lparr>holder = None, dims = [1, 2, 10, 3, 1, 2, 13, 3]\<rparr>)\<rparr>,
      rs_trace = evs\<rparr>)"
    using ok hp by (simp add: prod_eq_iff)
  then show ?thesis unfolding run_def s_def e_def tr .
qed


section \<open>The buffer update\<close>

lemma aliased_idem: "aliased H (aliased H v) = aliased H v"
  by (cases v) simp_all

lemma tensor_at_Inr: "tensor_at h p = Inr t \<longleftrightarrow> variables h p = DenseTensor t"
  by (simp add: tensor_at_def split: variable.splits)

lemma cluster_slot_Inr: "cluster_slot cb i = Inr p \<longleftrightarrow> i < length cb \<and> cb ! i = Some p"
  by (simp add: cluster_slot_def split: option.splits)

lemma share_entries_spec:
  assumes "share_entries cb cid m h = Inr h'"
    and "cluster_slot cb cid = Inr c"
    and "variables h c = DenseTensor ct" and "holder ct = H"
  shows "h' = h\<lparr>variables := (\<lambda>p. if p \<in> set (map fst (filter (\<lambda>it. snd it = cid) m))
                                    then aliased H (variables h p) else variables h p)\<rparr>"
  using assms
proof (induction m arbitrary: h ct)
  case Nil
  then show ?case by simp
next
  case (Cons it m)
  show ?case
  proof (cases "snd it = cid")
    case False
    with Cons.prems have "share_entries cb cid m h = Inr h'" by simp
    from Cons.IH [OF this Cons.prems(2,3,4)] False show ?thesis
      by simp
  next
    case True
    from Cons.prems True obtain t where t: "variables h (fst it) = DenseTensor t"
      and rest: "share_entries cb cid m
          (h\<lparr>variables := (variables h)(fst it := DenseTensor (ShareBufferWith t ct))\<rparr>) = Inr h'"
      by (auto simp: tensor_at_def split: sum.splits variable.splits)
    let ?h1 = "h\<lparr>variables := (variables h)(fst it := DenseTensor (ShareBufferWith t ct))\<rparr>"
    have new: "DenseTensor (ShareBufferWith t ct) = aliased H (variables h (fst it))"
      using t Cons.prems(4) by (simp add: ShareBufferWith_def)
    obtain ct1 where c1: "variables ?h1 c = DenseTensor ct1" "holder ct1 = H"
      using Cons.prems(3,4) by (cases "c = fst it") (auto simp: ShareBufferWith_def)
    from Cons.IH [OF rest Cons.prems(2) c1] have
      "h' = ?h1\<lparr>variables := (\<lambda>p. if p \<in> set (map fst (filter (\<lambda>it. snd it = cid) m))
                                    then aliased H (variables ?h1 p) else variables ?h1 p)\<rparr>" .
    then show ?thesis
      using True new
      by (auto intro!: arg_cong [where f = "\<lambda>v. h\<lparr>variables := v\<rparr>"] ext
          simp: aliased_idem)
  qed
qed

lemma cluster_members_Cons:
  "cluster_members cid (op_map # rest) =
     map fst (filter (\<lambda>it. snd it = cid) (snd op_map)) @ cluster_members cid rest"
  by (simp add: cluster_members_def all_entries_def)

lemma share_cache_spec:
  assumes "share_cache cb cid cache h = Inr h'"
    and "cluster_slot cb cid = Inr c"
    and "variables h c = DenseTensor ct" and "holder ct = H"
  shows "h' = h\<lparr>variables := (\<lambda>p. if p \<in> set (cluster_members cid cache)
                                    then aliased H (variables h p) else variables h p)\<rparr>"
  using assms
proof (induction cache arbitrary: h ct)
  case Nil
  then show ?case by (simp add: cluster_members_def all_entries_def)
next
  case (Cons op_map cache)
  from Cons.prems(1) obtain h1 where
    first: "share_entries cb cid (snd op_map) h = Inr h1"
    and rest: "share_cache cb cid cache h1 = Inr h'"
    by (auto split: sum.splits)
  let ?M = "set (map fst (filter (\<lambda>it. snd it = cid) (snd op_map)))"
  from share_entries_spec [OF first Cons.prems(2,3,4)] have h1:
    "h1 = h\<lparr>variables := (\<lambda>p. if p \<in> ?M then aliased H (variables h p) else variables h p)\<rparr>" .
  obtain ct1 where c1: "variables h1 c = DenseTensor ct1" "holder ct1 = H"
    using Cons.prems(3,4) h1 by (cases "c \<in> ?M") auto
  from Cons.IH [OF rest Cons.prems(2) c1] have
    "h' = h1\<lparr>variables := (\<lambda>p. if p \<in> set (cluster_members cid cache)
                                    then aliased H (variables h1 p) else variables h1 p)\<rparr>" .
  then show ?case
    unfolding h1 cluster_members_Cons
    by (auto intro!: arg_cong [where f = "\<lambda>v. h\<lparr>variables := v\<rparr>"] ext
        simp: aliased_idem)
qed

lemma share_entries_dense:
  assumes "share_entries cb cid m h = Inr h'"
    and "p \<in> set (map fst (filter (\<lambda>it. snd it = cid) m))"
  shows "is_dense (variables h p)"
  using assms
proof (induction m arbitrary: h)
  case Nil
  then show ?case by simp
next
  case (Cons it m)
  show ?case
  proof (cases "snd it = cid")
    case False
    with Cons show ?thesis by simp
  next
    case True
    from Cons.prems(1) True obtain t st where t: "variables h (fst it) = DenseTensor t"
      and rest: "share_entries cb cid m
          (h\<lparr>variables := (variables h)(fst it := DenseTensor (ShareBufferWith t st))\<rparr>) = Inr h'"
      by (auto simp: tensor_at_def split: sum.splits variable.splits)
    show ?thesis
    proof (cases "p = fst it")
      case True
      with t show ?thesis by simp
    next
      case False
      with Cons.prems(2) \<open>snd it = cid\<close>
      have "p \<in> set (map fst (filter (\<lambda>it. snd it = cid) m))" by auto
      from Cons.IH [OF rest this] False show ?thesis by simp
    qed
  qed
qed

lemma share_entries_frame:
  "share_entries cb cid m h = Inr h' \<Longrightarrow>
     (\<forall>p. is_dense (variables h' p) = is_dense (variables h p))"
proof (induction m arbitrary: h)
  case Nil
  then show ?case by simp
next
  case (Cons it m)
  show ?case
  proof (cases "snd it = cid")
    case False
    with Cons show ?thesis by simp
  next
    case True
    from Cons.prems(1) True obtain t st where t: "variables h (fst it) = DenseTensor t"
      and rest: "share_entries cb cid m
          (h\<lparr>variables := (variables h)(fst it := DenseTensor (ShareBufferWith t st))\<rparr>) = Inr h'"
      by (auto simp: tensor_at_def split: sum.splits variable.splits)
    from Cons.IH [OF rest] t show ?thesis by auto
  qed
qed

lemma share_cache_dense:
  assumes "share_cache cb cid cache h = Inr h'"
    and "p \<in> set (cluster_members cid cache)"
  shows "is_dense (variables h p)"
  using assms
proof (induction cache arbitrary: h)
  case Nil
  then show ?case by (simp add: cluster_members_def all_entries_def)
next
  case (Cons op_map cache)
  from Cons.prems(1) obtain h1 where
    first: "share_entries cb cid (snd op_map) h = Inr h1"
    and rest: "share_cache cb cid cache h1 = Inr h'"
    by (auto split: sum.splits)
  from Cons.prems(2) consider
    "p \<in> set (map fst (filter (\<lambda>it. snd it = cid) (snd op_map)))"
    | "p \<in> set (cluster_members cid cache)"
    unfolding cluster_members_Cons by auto
  then show ?case
  proof cases
    case 1
    from share_entries_dense [OF first this] show ?thesis .
  next
    case 2
    from Cons.IH [OF rest this] share_entries_frame [OF first] show ?thesis by simp
  qed
qed

lemma update_entry_spec:
  assumes "update_entry cache (t, cid) (cb, h) = Inr (cb', h')"
  shows "\<exists>tt c ct. variables h t = DenseTensor tt \<and> cid < length cb \<and>
           cb ! cid = Some c \<and> variables h c = DenseTensor ct \<and>
           (if memory_size ct < memory_size tt
            then cb' = cb[cid := Some t] \<and>
                 h' = h\<lparr>variables := (\<lambda>p. if p \<in> set (cluster_members cid cache)
                         then aliased (holder tt) (variables h p) else variables h p)\<rparr> \<and>
                 (\<forall>p \<in> set (cluster_members cid cache). is_dense (variables h p))
            else cb' = cb \<and> h' = h)"
proof -
  from assms obtain tt c ct where
    tt: "variables h t = DenseTensor tt" and c: "cluster_slot cb cid = Inr c"
    and ct: "variables h c = DenseTensor ct"
    by (auto simp: update_entry_def tensor_at_Inr split: sum.splits)
  from c have slot: "cid < length cb" "cb ! cid = Some c"
    by (simp_all add: cluster_slot_Inr)
  show ?thesis
  proof (cases "memory_size ct < memory_size tt")
    case False
    with assms tt c ct have "cb' = cb \<and> h' = h"
      by (auto simp: update_entry_def tensor_at_def split: sum.splits)
    with tt slot ct False show ?thesis by auto
  next
    case True
    let ?cb = "cb[cid := Some t]"
    from assms tt c ct True have sh: "share_cache ?cb cid cache h = Inr h'" and cb': "cb' = ?cb"
      by (auto simp: update_entry_def tensor_at_def split: sum.splits)
    have slot': "cluster_slot ?cb cid = Inr t"
      using slot by (simp add: cluster_slot_Inr)
    from share_cache_spec [OF sh slot' tt refl] share_cache_dense [OF sh]
    show ?thesis using tt slot ct True cb' by auto
  qed
qed


lemma canonical_size_eq:
  "cb ! cid = Some c \<Longrightarrow> variables h c = DenseTensor ct \<Longrightarrow>
     canonical_size cb h cid = memory_size ct"
  by (simp add: canonical_size_def)

lemma update_entry_new_canonical:
  assumes "update_entry cache (t, cid) (cb, h) = Inr (cb', h')"
    and "variables h t = DenseTensor tt"
  shows "variables h' t = DenseTensor tt"
proof -
  from update_entry_spec [OF assms(1)] assms(2) show ?thesis
    by (auto split: if_splits)
qed

lemma update_entry_mono_own:
  assumes "update_entry cache (t, cid) (cb, h) = Inr (cb', h')"
  shows "canonical_size cb h cid \<le> canonical_size cb' h' cid"
proof -
  from update_entry_spec [OF assms] obtain tt c ct where
    f: "variables h t = DenseTensor tt" "cid < length cb" "cb ! cid = Some c"
      "variables h c = DenseTensor ct"
      "if memory_size ct < memory_size tt then cb' = cb[cid := Some t] else cb' = cb \<and> h' = h"
    by (fastforce split: if_splits)
  show ?thesis
  proof (cases "memory_size ct < memory_size tt")
    case True
    with f have "cb' ! cid = Some t" by simp
    moreover have "variables h' t = DenseTensor tt"
      by (rule update_entry_new_canonical [OF assms f(1)])
    ultimately have "canonical_size cb' h' cid = memory_size tt"
      by (rule canonical_size_eq)
    moreover have "canonical_size cb h cid = memory_size ct"
      using f(3,4) by (rule canonical_size_eq)
    ultimately show ?thesis using True by simp
  next
    case False
    with f show ?thesis by simp
  qed
qed

lemma update_entry_length:
  "update_entry cache (t, cid) (cb, h) = Inr (cb', h') \<Longrightarrow> length cb' = length cb"
  by (drule update_entry_spec) (auto split: if_splits)

lemma update_entry_mono_all:
  assumes step: "update_entry cache (t, cid) (cb, h) = Inr (cb', h')"
    and rec: "(t, cid) \<in> set (all_entries cache)"
    and one: "one_cluster_each cache"
    and own: "buffers_in_own_cluster cache cb"
  shows "buffers_in_own_cluster cache cb' \<and>
         (\<forall>c < length cb. canonical_size cb h c \<le> canonical_size cb' h' c)"
proof -
  from update_entry_spec [OF step] obtain tt c0 ct where
    f: "variables h t = DenseTensor tt" "cid < length cb" "cb ! cid = Some c0"
      "variables h c0 = DenseTensor ct"
    and eff: "if memory_size ct < memory_size tt
       then cb' = cb[cid := Some t] \<and>
            h' = h\<lparr>variables := (\<lambda>p. if p \<in> set (cluster_members cid cache)
                         then aliased (holder tt) (variables h p) else variables h p)\<rparr> \<and>
            (\<forall>p \<in> set (cluster_members cid cache). is_dense (variables h p))
       else cb' = cb \<and> h' = h"
    by blast
  show ?thesis
  proof (cases "memory_size ct < memory_size tt")
    case False
    with eff have "cb' = cb" "h' = h" by simp_all
    with own show ?thesis by simp
  next
    case True
    with eff have cb': "cb' = cb[cid := Some t]"
      and h': "h' = h\<lparr>variables := (\<lambda>p. if p \<in> set (cluster_members cid cache)
                         then aliased (holder tt) (variables h p) else variables h p)\<rparr>"
      by simp_all
    have own': "buffers_in_own_cluster cache cb'"
      unfolding buffers_in_own_cluster_def
    proof (intro ballI impI)
      fix it c
      assume it: "it \<in> set (all_entries cache)" and c: "c \<in> set [0..<length cb']"
        and at: "cb' ! c = Some (fst it)"
      show "snd it = c"
      proof (cases "c = cid")
        case True
        with at cb' f(2) have "fst it = fst (t, cid)" by simp
        moreover from one it rec have "fst it = fst (t, cid) \<longrightarrow> snd it = snd (t, cid)"
          unfolding one_cluster_each_def by blast
        ultimately have "snd it = cid" by simp
        with True show ?thesis by simp
      next
        case False
        with at cb' have "cb ! c = Some (fst it)" by simp
        moreover from c cb' have "c \<in> set [0..<length cb]" by simp
        ultimately show ?thesis
          using own it unfolding buffers_in_own_cluster_def by blast
      qed
    qed
    have mono: "canonical_size cb h c \<le> canonical_size cb' h' c" if c: "c < length cb" for c
    proof (cases "c = cid")
      case True
      with update_entry_mono_own [OF step] show ?thesis by simp
    next
      case False
      with cb' have same: "cb' ! c = cb ! c" by simp
      show ?thesis
      proof (cases "cb ! c")
        case None
        then show ?thesis by (simp add: canonical_size_def)
      next
        case (Some p)
        have "p \<notin> set (cluster_members cid cache)"
        proof
          assume "p \<in> set (cluster_members cid cache)"
          then obtain it where it: "it \<in> set (all_entries cache)" "fst it = p" "snd it = cid"
            by (auto simp: cluster_members_def)
          moreover from c have "c \<in> set [0..<length cb]" by simp
          ultimately have "snd it = c"
            using own Some unfolding buffers_in_own_cluster_def by blast
          with it False show False by simp
        qed
        with h' have "variables h' p = variables h p" by simp
        with same Some show ?thesis by (simp add: canonical_size_def)
      qed
    qed
    from own' mono show ?thesis by blast
  qed
qed

lemma update_entries_mono_all:
  assumes "update_entries cache its (cb, h) = Inr (cb', h')"
    and "set its \<subseteq> set (all_entries cache)"
    and "one_cluster_each cache"
    and "buffers_in_own_cluster cache cb"
  shows "buffers_in_own_cluster cache cb' \<and> length cb' = length cb \<and>
         (\<forall>c < length cb. canonical_size cb h c \<le> canonical_size cb' h' c)"
  using assms
proof (induction its arbitrary: cb h)
  case Nil
  then show ?case by simp
next
  case (Cons it its)
  obtain t cid where it: "it = (t, cid)" by (cases it)
  from Cons.prems(1) it obtain cb1 h1 where
    first: "update_entry cache (t, cid) (cb, h) = Inr (cb1, h1)"
    and rest: "update_entries cache its (cb1, h1) = Inr (cb', h')"
    by (auto split: sum.splits)
  from Cons.prems(2) it have rec: "(t, cid) \<in> set (all_entries cache)" by simp
  from update_entry_mono_all [OF first rec Cons.prems(3,4)] have
    own1: "buffers_in_own_cluster cache cb1"
    and mono1: "\<forall>c < length cb. canonical_size cb h c \<le> canonical_size cb1 h1 c"
    by simp_all
  have len1: "length cb1 = length cb" by (rule update_entry_length [OF first])
  from Cons.prems(2) have sub: "set its \<subseteq> set (all_entries cache)" by simp
  from Cons.IH [OF rest sub Cons.prems(3) own1] have
    "buffers_in_own_cluster cache cb'" "length cb' = length cb1"
    "\<forall>c < length cb1. canonical_size cb1 h1 c \<le> canonical_size cb' h' c"
    by simp_all
  with mono1 len1 show ?case by (auto intro: order_trans)
qed

lemma map_of_entries:
  "map_of cache i = Some m \<Longrightarrow> set m \<subseteq> set (all_entries cache)"
  by (auto simp: all_entries_def dest!: map_of_SomeD)

lemma update_buffers_mono_all:
  assumes "update_buffers cache i (cb, h) = Inr (cb', h')"
    and "one_cluster_each cache"
    and "buffers_in_own_cluster cache cb"
  shows "buffers_in_own_cluster cache cb' \<and> length cb' = length cb \<and>
         (\<forall>c < length cb. canonical_size cb h c \<le> canonical_size cb' h' c)"
proof (cases "map_of cache i")
  case None
  with assms show ?thesis by (simp add: update_buffers_def)
next
  case (Some m)
  with assms(1) have "update_entries cache m (cb, h) = Inr (cb', h')"
    by (simp add: update_buffers_def)
  from update_entries_mono_all [OF this map_of_entries [OF Some] assms(2,3)]
  show ?thesis .
qed

lemma chain_plan:
  "MakeReusePlan [''b'', ''c''] chain_table chain_heap chain_executor =
     Some (Inr (chain_executor\<lparr>m_reuse_cache := chain_cache,
                  m_cluster_buffer := [Some 2, Some 3]\<rparr>))"
  by (simp add: MakeReusePlan_def plan_name_def chain_table_def chain_heap_def
      chain_executor_def new_executor_def CreateOp_def resize_def FindVar.simps
      tensor_of_size_def record_entry_def chain_cache_def)

text \<open>
  The claim C1 as it is stated fails for a reuse table that chains.  The plan below is
  the one \<open>MakeReusePlan\<close> makes for \<open>chain_table\<close>; the buffer of cluster 0 is the
  tensor \<open>b\<close>, of memory size 100, which is also recorded as a member of cluster 1.
  When the operator that produces \<open>d\<close> has run, \<open>d\<close> (size 20) replaces \<open>c\<close> (size 10)
  as the buffer of cluster 1 and \<open>b\<close> is made to share the storage of \<open>d\<close>: the memory
  size of the canonical buffer of cluster 0 falls from 100 to 20, and it is 20 at the end
  of the run.
\<close>

theorem canonical_buffer_shrinks_counterexample:
  "MakeReusePlan [''b'', ''c''] chain_table chain_heap chain_executor =
     Some (Inr (chain_executor\<lparr>m_reuse_cache := chain_cache,
                  m_cluster_buffer := [Some 2, Some 3]\<rparr>)) \<and>
   canonical_size [Some 2, Some 3] chain_heap 0 = 100 \<and>
   update_buffers chain_cache 0 ([Some 2, Some 3], chain_heap) =
     Inr ([Some 2, Some 4], chain_after) \<and>
   canonical_size [Some 2, Some 4] chain_after 0 = 20 \<and>
   fst (Run keep_op keep_hook
        \<lparr>rs_exec = chain_executor\<lparr>m_reuse_cache := chain_cache,
                  m_cluster_buffer := [Some 2, Some 3]\<rparr>,
         rs_heap = chain_heap, rs_trace = []\<rparr>) = None \<and>
   canonical_size
     (m_cluster_buffer (rs_exec (snd (Run keep_op keep_hook
        \<lparr>rs_exec = chain_executor\<lparr>m_reuse_cache := chain_cache,
                  m_cluster_buffer := [Some 2, Some 3]\<rparr>,
         rs_heap = chain_heap, rs_trace = []\<rparr>))))
     (rs_heap (snd (Run keep_op keep_hook
        \<lparr>rs_exec = chain_executor\<lparr>m_reuse_cache := chain_cache,
                  m_cluster_buffer := [Some 2, Some 3]\<rparr>,
         rs_heap = chain_heap, rs_trace = []\<rparr>))) 0 = 20"
proof -
  have plan: "MakeReusePlan [''b'', ''c''] chain_table chain_heap chain_executor =
     Some (Inr (chain_executor\<lparr>m_reuse_cache := chain_cache,
                  m_cluster_buffer := [Some 2, Some 3]\<rparr>))"
    by (rule chain_plan)
  have before: "canonical_size [Some 2, Some 3] chain_heap 0 = 100"
    by (simp add: canonical_size_def chain_heap_def tensor_of_size_def memory_size_def)
  have step: "update_buffers chain_cache 0 ([Some 2, Some 3], chain_heap) =
     Inr ([Some 2, Some 4], chain_after)"
    by (simp add: update_buffers_def update_entry_def chain_cache_def chain_heap_def
        chain_after_def tensor_at_def cluster_slot_def tensor_of_size_def memory_size_def
        ShareBufferWith_def fun_eq_iff)
  have after: "canonical_size [Some 2, Some 4] chain_after 0 = 20"
    by (simp add: canonical_size_def chain_after_def memory_size_def)
  have run: "fst (Run keep_op keep_hook
        \<lparr>rs_exec = chain_executor\<lparr>m_reuse_cache := chain_cache,
                  m_cluster_buffer := [Some 2, Some 3]\<rparr>,
         rs_heap = chain_heap, rs_trace = []\<rparr>) = None"
    "canonical_size
     (m_cluster_buffer (rs_exec (snd (Run keep_op keep_hook
        \<lparr>rs_exec = chain_executor\<lparr>m_reuse_cache := chain_cache,
                  m_cluster_buffer := [Some 2, Some 3]\<rparr>,
         rs_heap = chain_heap, rs_trace = []\<rparr>))))
     (rs_heap (snd (Run keep_op keep_hook
        \<lparr>rs_exec = chain_executor\<lparr>m_reuse_cache := chain_cache,
                  m_cluster_buffer := [Some 2, Some 3]\<rparr>,
         rs_heap = chain_heap, rs_trace = []\<rparr>))) 0 = 20"
    by (simp_all add: Run_def run_one_def Let_def chain_executor_def new_executor_def CreateOp_def
        update_buffers_def update_entry_def chain_cache_def chain_heap_def
        tensor_at_def cluster_slot_def tensor_of_size_def memory_size_def
        ShareBufferWith_def canonical_size_def keep_op_def keep_hook_def)
  from plan before step after run show ?thesis by blast
qed

text \<open>
  Claim C1, amended.  For a pair (tensor, cluster id) recorded for the operator that has
  run, the canonical buffer of the cluster is replaced by the tensor exactly when the
  memory size of the tensor is strictly greater than that of the current canonical
  buffer.  On a replacement every tensor recorded under that cluster id, in the entries
  of any operator, shares the holder of the new canonical buffer and keeps its own shape,
  and no other tensor changes; a tensor that is not greater replaces nothing and changes
  nothing.  Handling a pair never decreases the memory size of the canonical buffer of
  the cluster of that pair.  When each tensor is recorded under one cluster id only and
  the canonical buffer of no cluster is a tensor recorded under the id of another
  cluster, the buffer update of an operator decreases the memory size of the canonical
  buffer of no cluster.
\<close>

theorem cluster_buffer_update:
  "(update_entry cache (t, cid) (cb, h) = Inr (cb', h') \<longrightarrow>
      (\<exists>tt c ct.
         variables h t = DenseTensor tt \<and> cid < length cb \<and> cb ! cid = Some c \<and>
         variables h c = DenseTensor ct \<and>
         cb' = (if memory_size ct < memory_size tt then cb[cid := Some t] else cb) \<and>
         variables h' t = DenseTensor tt \<and>
         (memory_size ct < memory_size tt \<longrightarrow>
            (\<forall>p \<in> set (cluster_members cid cache).
               \<exists>x. variables h p = DenseTensor x \<and>
                   variables h' p = DenseTensor (ShareBufferWith x tt)) \<and>
            (\<forall>p. p \<notin> set (cluster_members cid cache) \<longrightarrow> variables h' p = variables h p)) \<and>
         (\<not> memory_size ct < memory_size tt \<longrightarrow> h' = h) \<and>
         canonical_size cb h cid \<le> canonical_size cb' h' cid)) \<and>
   (update_buffers cache i (cb, h) = Inr (cb2, h2) \<and> one_cluster_each cache \<and>
    buffers_in_own_cluster cache cb \<longrightarrow>
      length cb2 = length cb \<and>
      (\<forall>c < length cb. canonical_size cb h c \<le> canonical_size cb2 h2 c))"
proof (intro conjI impI)
  assume step: "update_entry cache (t, cid) (cb, h) = Inr (cb', h')"
  from update_entry_spec [OF step] obtain tt c ct where
    f: "variables h t = DenseTensor tt" "cid < length cb" "cb ! cid = Some c"
      "variables h c = DenseTensor ct"
    and eff: "if memory_size ct < memory_size tt
       then cb' = cb[cid := Some t] \<and>
            h' = h\<lparr>variables := (\<lambda>p. if p \<in> set (cluster_members cid cache)
                         then aliased (holder tt) (variables h p) else variables h p)\<rparr> \<and>
            (\<forall>p \<in> set (cluster_members cid cache). is_dense (variables h p))
       else cb' = cb \<and> h' = h"
    by blast
  have cb': "cb' = (if memory_size ct < memory_size tt then cb[cid := Some t] else cb)"
    using eff by (simp split: if_splits)
  have canon: "variables h' t = DenseTensor tt"
    by (rule update_entry_new_canonical [OF step f(1)])
  have shared: "\<exists>x. variables h p = DenseTensor x \<and>
                   variables h' p = DenseTensor (ShareBufferWith x tt)"
    if gt: "memory_size ct < memory_size tt" and p: "p \<in> set (cluster_members cid cache)" for p
  proof -
    from eff gt p have "is_dense (variables h p)" by simp
    then obtain x where x: "variables h p = DenseTensor x" by (cases "variables h p") simp_all
    from eff gt p have "variables h' p = aliased (holder tt) (variables h p)" by simp
    with x show ?thesis by (simp add: ShareBufferWith_def)
  qed
  have others: "variables h' p = variables h p"
    if "memory_size ct < memory_size tt" and "p \<notin> set (cluster_members cid cache)" for p
    using eff that by simp
  have same: "h' = h" if "\<not> memory_size ct < memory_size tt"
    using eff that by simp
  have mono: "canonical_size cb h cid \<le> canonical_size cb' h' cid"
    by (rule update_entry_mono_own [OF step])
  from f cb' canon shared others same mono
  show "\<exists>tt c ct.
         variables h t = DenseTensor tt \<and> cid < length cb \<and> cb ! cid = Some c \<and>
         variables h c = DenseTensor ct \<and>
         cb' = (if memory_size ct < memory_size tt then cb[cid := Some t] else cb) \<and>
         variables h' t = DenseTensor tt \<and>
         (memory_size ct < memory_size tt \<longrightarrow>
            (\<forall>p \<in> set (cluster_members cid cache).
               \<exists>x. variables h p = DenseTensor x \<and>
                   variables h' p = DenseTensor (ShareBufferWith x tt)) \<and>
            (\<forall>p. p \<notin> set (cluster_members cid cache) \<longrightarrow> variables h' p = variables h p)) \<and>
         (\<not> memory_size ct < memory_size tt \<longrightarrow> h' = h) \<and>
         canonical_size cb h cid \<le> canonical_size cb' h' cid"
    by blast
next
  assume a: "update_buffers cache i (cb, h) = Inr (cb2, h2) \<and> one_cluster_each cache \<and>
    buffers_in_own_cluster cache cb"
  then have "update_buffers cache i (cb, h) = Inr (cb2, h2)" "one_cluster_each cache"
    "buffers_in_own_cluster cache cb" by simp_all
  from update_buffers_mono_all [OF this]
  show "length cb2 = length cb" "\<forall>c < length cb. canonical_size cb h c \<le> canonical_size cb2 h2 c"
    by simp_all
qed

text \<open>
  A cluster of the tensors at 1 and 2 (sizes 5 and 100) whose buffer is the tensor at 3
  (size 10): the tensor at 2 replaces it, and the tensor at 1 shares its storage and
  keeps its shape.
\<close>

theorem cluster_buffer_update_witness:
  "(\<exists>cb' h'. update_entry flat_cache (2, 0) ([Some 3], chain_heap) = Inr (cb', h') \<and>
      cb' = [Some 2] \<and>
      variables h' 2 = tensor_of_size 2 100 \<and>
      variables h' 1 =
        DenseTensor \<lparr>holder = Some \<lparr>alloc_id = 2, capacity = 100\<rparr>, dims = [5]\<rparr> \<and>
      variables h' 3 = tensor_of_size 3 10 \<and>
      canonical_size [Some 3] chain_heap 0 = 10 \<and> canonical_size cb' h' 0 = 100) \<and>
   one_cluster_each flat_cache \<and> buffers_in_own_cluster flat_cache [Some 3] \<and>
   (\<exists>cb2 h2. update_buffers flat_cache 1 ([Some 3], chain_heap) = Inr (cb2, h2) \<and>
      length cb2 = 1 \<and> 10 \<le> canonical_size cb2 h2 0)"
proof -
  have one: "one_cluster_each flat_cache"
    by (simp add: one_cluster_each_def flat_cache_def all_entries_def)
  have own: "buffers_in_own_cluster flat_cache [Some 3]"
    by (simp add: buffers_in_own_cluster_def flat_cache_def all_entries_def)
  have before: "canonical_size [Some 3] chain_heap 0 = 10"
    by (simp add: canonical_size_def chain_heap_def tensor_of_size_def memory_size_def)
  have "\<exists>s. update_entry flat_cache (2, 0) ([Some 3], chain_heap) = Inr s"
    by (simp add: update_entry_def flat_cache_def chain_heap_def
        tensor_at_def cluster_slot_def tensor_of_size_def memory_size_def ShareBufferWith_def)
  then obtain cb' h' where
    step: "update_entry flat_cache (2, 0) ([Some 3], chain_heap) = Inr (cb', h')"
    by auto
  have members: "set (cluster_members 0 flat_cache) = {1, 2}"
    by (auto simp: cluster_members_def flat_cache_def all_entries_def)
  from cluster_buffer_update [THEN conjunct1, rule_format, OF step] obtain tt c ct where
    f: "variables chain_heap 2 = DenseTensor tt" "[Some 3] ! 0 = Some c"
      "variables chain_heap c = DenseTensor ct"
      "cb' = (if memory_size ct < memory_size tt then [Some 3][0 := Some 2] else [Some 3])"
      "variables h' 2 = DenseTensor tt"
      "memory_size ct < memory_size tt \<longrightarrow>
            (\<forall>p \<in> set (cluster_members 0 flat_cache).
               \<exists>x. variables chain_heap p = DenseTensor x \<and>
                   variables h' p = DenseTensor (ShareBufferWith x tt)) \<and>
            (\<forall>p. p \<notin> set (cluster_members 0 flat_cache) \<longrightarrow>
               variables h' p = variables chain_heap p)"
      "canonical_size [Some 3] chain_heap 0 \<le> canonical_size cb' h' 0"
    by blast
  from f(1) have tt: "tt = \<lparr>holder = Some \<lparr>alloc_id = 2, capacity = 100\<rparr>, dims = [100]\<rparr>"
    by (simp add: chain_heap_def tensor_of_size_def)
  from f(2) have c: "c = 3" by simp
  from f(3) c have ct: "ct = \<lparr>holder = Some \<lparr>alloc_id = 3, capacity = 10\<rparr>, dims = [10]\<rparr>"
    by (simp add: chain_heap_def tensor_of_size_def)
  have gt: "memory_size ct < memory_size tt"
    by (simp add: tt ct memory_size_def)
  from f(4) gt have cb': "cb' = [Some 2]" by simp
  from f(5) tt have v2: "variables h' 2 = tensor_of_size 2 100"
    by (simp add: tensor_of_size_def)
  from f(6) gt members have "\<exists>x. variables chain_heap 1 = DenseTensor x \<and>
                   variables h' 1 = DenseTensor (ShareBufferWith x tt)"
    by simp
  then have v1: "variables h' 1 =
        DenseTensor \<lparr>holder = Some \<lparr>alloc_id = 2, capacity = 100\<rparr>, dims = [5]\<rparr>"
    by (auto simp: chain_heap_def tensor_of_size_def ShareBufferWith_def tt)
  from f(6) gt members have "variables h' 3 = variables chain_heap 3" by simp
  then have v3: "variables h' 3 = tensor_of_size 3 10"
    by (simp add: chain_heap_def)
  have after: "canonical_size cb' h' 0 = 100"
    using cb' v2 by (simp add: canonical_size_def tensor_of_size_def memory_size_def)
  have "\<exists>s. update_buffers flat_cache 1 ([Some 3], chain_heap) = Inr s"
    by (simp add: update_buffers_def update_entry_def flat_cache_def chain_heap_def
        tensor_at_def cluster_slot_def tensor_of_size_def memory_size_def ShareBufferWith_def)
  then obtain cb2 h2 where
    upd: "update_buffers flat_cache 1 ([Some 3], chain_heap) = Inr (cb2, h2)"
    by auto
  from cluster_buffer_update [THEN conjunct2, rule_format, OF conjI [OF upd conjI [OF one own]]]
  have "length cb2 = length [Some (3::nat)]"
    "\<forall>c < length [Some (3::nat)]. canonical_size [Some 3] chain_heap c \<le> canonical_size cb2 h2 c"
    by simp_all
  with before have "length cb2 = 1" "10 \<le> canonical_size cb2 h2 0"
    by auto
  with step cb' v1 v2 v3 before after one own upd show ?thesis by blast
qed


section \<open>Creating variables\<close>

lemma root_of_parentless:
  assumes "root_of h s = Some r"
  shows "scope_parent h r = None"
  by (rule root_of.raw_induct [where P = "\<lambda>h s r. scope_parent h r = None", OF _ assms])
     (auto split: option.splits)

lemma root_of_not_self_parent:
  assumes "root_of h s = Some r"
  shows "scope_parent h s \<noteq> Some s"
  by (rule root_of.raw_induct [where P = "\<lambda>h s r. scope_parent h s \<noteq> Some s", OF _ assms])
     (auto split: option.splits)

lemma FindVar_parentless:
  "scope_parent h r = None \<Longrightarrow> FindVar h r name = Some (scope_vars h r name)"
  by (subst FindVar.simps) (simp split: option.splits)

lemma FindVar_returns:
  assumes "root_of h s = Some r"
  shows "FindVar h s name \<noteq> None"
proof (rule root_of.raw_induct [where P = "\<lambda>h s r. FindVar h s name \<noteq> None", OF _ assms])
  fix walk :: "heap \<Rightarrow> nat \<Rightarrow> nat option" and h anc r
  assume IH: "\<And>h anc r. walk h anc = Some r \<Longrightarrow> FindVar h anc name \<noteq> None"
    and step: "(case scope_parent h anc of None \<Rightarrow> Some anc | Some p \<Rightarrow> walk h p) = Some r"
  show "FindVar h anc name \<noteq> None"
  proof (cases "scope_parent h anc")
    case None
    then show ?thesis by (subst FindVar.simps) (simp split: option.splits)
  next
    case (Some p)
    with step have "walk h p = Some r" by simp
    from IH [OF this] Some show ?thesis
      by (subst FindVar.simps) (simp split: option.splits)
  qed
qed

lemma root_of_cong:
  assumes "root_of h s = Some r" and "scope_parent h' = scope_parent h"
  shows "root_of h' s = Some r"
proof -
  have "scope_parent h' = scope_parent h \<longrightarrow> root_of h' s = Some r"
  proof (rule root_of.raw_induct
      [where P = "\<lambda>h s r. scope_parent h' = scope_parent h \<longrightarrow> root_of h' s = Some r",
        OF _ assms(1)])
    fix walk :: "heap \<Rightarrow> nat \<Rightarrow> nat option" and h anc r
    assume IH: "\<And>h anc r. walk h anc = Some r \<Longrightarrow>
        scope_parent h' = scope_parent h \<longrightarrow> root_of h' anc = Some r"
      and step: "(case scope_parent h anc of None \<Rightarrow> Some anc | Some p \<Rightarrow> walk h p) = Some r"
    show "scope_parent h' = scope_parent h \<longrightarrow> root_of h' anc = Some r"
    proof
      assume same: "scope_parent h' = scope_parent h"
      show "root_of h' anc = Some r"
      proof (cases "scope_parent h anc")
        case None
        with step same show ?thesis by (subst root_of.simps) simp
      next
        case (Some p)
        with step have "walk h p = Some r" by simp
        from IH [OF this] same have "root_of h' p = Some r" by simp
        with Some same show ?thesis by (subst root_of.simps) simp
      qed
    qed
  qed
  with assms(2) show ?thesis by simp
qed

text \<open>A well-founded parent relation makes the walk end.\<close>

lemma root_of_returns:
  assumes "\<forall>s p. scope_parent h s = Some p \<longrightarrow> rank p < (rank s :: nat)"
  shows "root_of h s \<noteq> None"
proof (induction "rank s" arbitrary: s rule: less_induct)
  case less
  show ?case
  proof (cases "scope_parent h s")
    case None
    then show ?thesis by (subst root_of.simps) simp
  next
    case (Some p)
    with assms have "rank p < rank s" by blast
    from less [OF this] Some show ?thesis by (subst root_of.simps) simp
  qed
qed

lemma Var_present: "scope_vars h s name = Some v \<Longrightarrow> Var h s name = (v, h)"
  by (simp add: Var_def)

lemma Var_absent:
  "scope_vars h s name = None \<Longrightarrow>
     Var h s name =
       (next_addr h,
        h\<lparr>scope_vars := (scope_vars h)(s := (scope_vars h s)(name \<mapsto> next_addr h)),
          variables := (variables h)(next_addr h := Uninitialized),
          next_addr := Suc (next_addr h)\<rparr>)"
  by (simp add: Var_def)

lemma create_vars_present:
  assumes "scope_parent h r = None"
    and "\<forall>var \<in> set vars. var_name var \<noteq> k \<and> var_persistable var \<longrightarrow>
           scope_vars h r (var_name var) \<noteq> None"
  shows "create_vars k init True sc r vars h = Some h"
  using assms
proof (induction vars)
  case Nil
  then show ?case by simp
next
  case (Cons var vars)
  then have rest: "create_vars k init True sc r vars h = Some h" by simp
  show ?case
  proof (cases "var_name var \<noteq> k \<and> var_persistable var")
    case False
    with rest show ?thesis by auto
  next
    case True
    with Cons.prems obtain v where "scope_vars h r (var_name var) = Some v" by auto
    with Cons.prems(1) have "FindVar h r (var_name var) = Some (Some v)"
      by (simp add: FindVar_parentless)
    with True rest show ?thesis by simp
  qed
qed

lemma create_vars_persistent:
  assumes "scope_parent h r = None"
  shows "\<exists>h1. create_vars k init True sc r vars h = Some h1 \<and>
      scope_parent h1 = scope_parent h \<and>
      (\<forall>s. s \<noteq> r \<longrightarrow> scope_vars h1 s = scope_vars h s) \<and>
      (\<forall>n v. scope_vars h r n = Some v \<longrightarrow> scope_vars h1 r n = Some v) \<and>
      (\<forall>n. scope_vars h r n = None \<and> scope_vars h1 r n \<noteq> None \<longrightarrow>
           (\<exists>var \<in> set vars. var_name var = n \<and> n \<noteq> k \<and> var_persistable var)) \<and>
      (\<forall>var \<in> set vars. var_name var \<noteq> k \<and> var_persistable var \<longrightarrow>
           scope_vars h1 r (var_name var) \<noteq> None) \<and>
      next_addr h \<le> next_addr h1 \<and>
      (\<forall>p < next_addr h. variables h1 p = variables h p)"
  using assms
proof (induction vars arbitrary: h)
  case Nil
  then show ?case by auto
next
  case (Cons var vars)
  show ?case
  proof (cases "var_name var \<noteq> k \<and> var_persistable var")
    case False
    then have "create_vars k init True sc r (var # vars) h = create_vars k init True sc r vars h"
      by auto
    with Cons.IH [OF Cons.prems] False show ?thesis by auto
  next
    case True
    show ?thesis
    proof (cases "scope_vars h r (var_name var)")
      case (Some v)
      with Cons.prems have "FindVar h r (var_name var) = Some (Some v)"
        by (simp add: FindVar_parentless)
      with True have "create_vars k init True sc r (var # vars) h =
          create_vars k init True sc r vars h"
        by simp
      with Cons.IH [OF Cons.prems] Some show ?thesis by auto
    next
      case None
      define h' where "h' = init_at init (next_addr h) (var_type var)
        (h\<lparr>scope_vars := (scope_vars h)(r := (scope_vars h r)(var_name var \<mapsto> next_addr h)),
          variables := (variables h)(next_addr h := Uninitialized),
          next_addr := Suc (next_addr h)\<rparr>)"
      from None Cons.prems have "FindVar h r (var_name var) = Some None"
        by (simp add: FindVar_parentless)
      with True None have unfold: "create_vars k init True sc r (var # vars) h =
          create_vars k init True sc r vars h'"
        by (simp add: Var_absent h'_def)
      have h': "scope_parent h' = scope_parent h"
        "scope_vars h' = (scope_vars h)(r := (scope_vars h r)(var_name var \<mapsto> next_addr h))"
        "next_addr h' = Suc (next_addr h)"
        "\<forall>p < next_addr h. variables h' p = variables h p"
        by (simp_all add: h'_def init_at_def)
      from h'(1) Cons.prems have "scope_parent h' r = None" by simp
      from Cons.IH [OF this] obtain h1 where h1:
        "create_vars k init True sc r vars h' = Some h1"
        "scope_parent h1 = scope_parent h'"
        "\<forall>s. s \<noteq> r \<longrightarrow> scope_vars h1 s = scope_vars h' s"
        "\<forall>n v. scope_vars h' r n = Some v \<longrightarrow> scope_vars h1 r n = Some v"
        "\<forall>n. scope_vars h' r n = None \<and> scope_vars h1 r n \<noteq> None \<longrightarrow>
           (\<exists>var \<in> set vars. var_name var = n \<and> n \<noteq> k \<and> var_persistable var)"
        "\<forall>var \<in> set vars. var_name var \<noteq> k \<and> var_persistable var \<longrightarrow>
           scope_vars h1 r (var_name var) \<noteq> None"
        "next_addr h' \<le> next_addr h1"
        "\<forall>p < next_addr h'. variables h1 p = variables h' p"
        by blast
      have a: "\<forall>s. s \<noteq> r \<longrightarrow> scope_vars h1 s = scope_vars h s"
        using h1(3) h'(2) by simp
      have b: "\<forall>n v. scope_vars h r n = Some v \<longrightarrow> scope_vars h1 r n = Some v"
      proof (intro allI impI)
        fix n v assume "scope_vars h r n = Some v"
        with None have "n \<noteq> var_name var" by auto
        with \<open>scope_vars h r n = Some v\<close> h'(2) have "scope_vars h' r n = Some v" by simp
        with h1(4) show "scope_vars h1 r n = Some v" by blast
      qed
      have c: "\<forall>n. scope_vars h r n = None \<and> scope_vars h1 r n \<noteq> None \<longrightarrow>
           (\<exists>var \<in> set (var # vars). var_name var = n \<and> n \<noteq> k \<and> var_persistable var)"
      proof (intro allI impI)
        fix n assume n: "scope_vars h r n = None \<and> scope_vars h1 r n \<noteq> None"
        show "\<exists>var \<in> set (var # vars). var_name var = n \<and> n \<noteq> k \<and> var_persistable var"
        proof (cases "n = var_name var")
          case True
          with \<open>var_name var \<noteq> k \<and> var_persistable var\<close> show ?thesis by auto
        next
          case False
          with n h'(2) have "scope_vars h' r n = None \<and> scope_vars h1 r n \<noteq> None" by simp
          with h1(5) show ?thesis by auto
        qed
      qed
      have d: "\<forall>var \<in> set (var # vars). var_name var \<noteq> k \<and> var_persistable var \<longrightarrow>
           scope_vars h1 r (var_name var) \<noteq> None"
      proof -
        from h'(2) have "scope_vars h' r (var_name var) = Some (next_addr h)" by simp
        with h1(4) have "scope_vars h1 r (var_name var) = Some (next_addr h)" by blast
        with h1(6) show ?thesis by auto
      qed
      have e: "next_addr h \<le> next_addr h1" using h1(7) h'(3) by simp
      have f: "\<forall>p < next_addr h. variables h1 p = variables h p"
        using h1(8) h'(3,4) by simp
      from unfold h1(1,2) h'(1) a b c d e f show ?thesis by auto
    qed
  qed
qed

lemma init_at_frame:
  "scope_vars (init_at init ptr ty h) = scope_vars h"
  "scope_parent (init_at init ptr ty h) = scope_parent h"
  "next_addr (init_at init ptr ty h) = next_addr h"
  by (simp_all add: init_at_def)

lemma reinitialized_frame:
  "scope_vars (reinitialized k init sc vars h) = scope_vars h \<and>
   scope_parent (reinitialized k init sc vars h) = scope_parent h \<and>
   next_addr (reinitialized k init sc vars h) = next_addr h"
  by (induction vars arbitrary: h) (auto simp: init_at_frame split: option.splits)

lemma Var_props:
  assumes "Var h s n = (ptr, h')"
  shows "scope_parent h' = scope_parent h" and "scope_vars h' s n = Some ptr"
    and "\<forall>s'. s' \<noteq> s \<longrightarrow> scope_vars h' s' = scope_vars h s'"
    and "\<forall>m v. scope_vars h s m = Some v \<longrightarrow> scope_vars h' s m = Some v"
  using assms by (auto simp: Var_def split: option.splits)

lemma create_vars_local:
  "\<exists>h1. create_vars k init False sc anc vars h = Some h1 \<and>
      scope_parent h1 = scope_parent h \<and>
      (\<forall>s. s \<noteq> sc \<longrightarrow> scope_vars h1 s = scope_vars h s) \<and>
      (\<forall>n v. scope_vars h sc n = Some v \<longrightarrow> scope_vars h1 sc n = Some v) \<and>
      (\<forall>var \<in> set vars. var_name var \<noteq> k \<and> \<not> var_persistable var \<longrightarrow>
           scope_vars h1 sc (var_name var) \<noteq> None)"
proof (induction vars arbitrary: h)
  case Nil
  then show ?case by simp
next
  case (Cons var vars)
  show ?case
  proof (cases "var_name var \<noteq> k \<and> \<not> var_persistable var")
    case False
    then have "create_vars k init False sc anc (var # vars) h =
        create_vars k init False sc anc vars h"
      by auto
    with Cons.IH [of h] False show ?thesis by auto
  next
    case True
    obtain ptr h' where var: "Var h sc (var_name var) = (ptr, h')"
      by (cases "Var h sc (var_name var)")
    define h'' where "h'' = init_at init ptr (var_type var) h'"
    from True var have unfold: "create_vars k init False sc anc (var # vars) h =
        create_vars k init False sc anc vars h''"
      by (simp add: h''_def)
    note v = Var_props [OF var]
    have h'': "scope_parent h'' = scope_parent h" "scope_vars h'' = scope_vars h'"
      using v(1) by (simp_all add: h''_def init_at_frame)
    from Cons.IH [of h''] obtain h1 where h1:
      "create_vars k init False sc anc vars h'' = Some h1"
      "scope_parent h1 = scope_parent h''"
      "\<forall>s. s \<noteq> sc \<longrightarrow> scope_vars h1 s = scope_vars h'' s"
      "\<forall>n v. scope_vars h'' sc n = Some v \<longrightarrow> scope_vars h1 sc n = Some v"
      "\<forall>var \<in> set vars. var_name var \<noteq> k \<and> \<not> var_persistable var \<longrightarrow>
           scope_vars h1 sc (var_name var) \<noteq> None"
      by blast
    have a: "\<forall>s. s \<noteq> sc \<longrightarrow> scope_vars h1 s = scope_vars h s"
      using h1(3) h''(2) v(3) by simp
    have b: "\<forall>n v. scope_vars h sc n = Some v \<longrightarrow> scope_vars h1 sc n = Some v"
      using h1(4) h''(2) v(4) by simp
    have "scope_vars h1 sc (var_name var) = Some ptr"
      using h1(4) h''(2) v(2) by simp
    with h1(5) have c: "\<forall>var \<in> set (var # vars). var_name var \<noteq> k \<and> \<not> var_persistable var \<longrightarrow>
           scope_vars h1 sc (var_name var) \<noteq> None"
      by auto
    from unfold h1(1,2) h''(1) a b c show ?thesis by auto
  qed
qed

lemma create_vars_local_again:
  assumes "\<forall>var \<in> set vars. var_name var \<noteq> k \<and> \<not> var_persistable var \<longrightarrow>
           scope_vars h sc (var_name var) \<noteq> None"
  shows "create_vars k init False sc anc vars h = Some (reinitialized k init sc vars h)"
  using assms
proof (induction vars arbitrary: h)
  case Nil
  then show ?case by simp
next
  case (Cons var vars)
  show ?case
  proof (cases "var_name var \<noteq> k \<and> \<not> var_persistable var")
    case False
    with Cons show ?thesis by auto
  next
    case True
    with Cons.prems obtain ptr where ptr: "scope_vars h sc (var_name var) = Some ptr" by auto
    have "\<forall>d \<in> set vars. var_name d \<noteq> k \<and> \<not> var_persistable d \<longrightarrow>
           scope_vars (init_at init ptr (var_type var) h) sc (var_name d) \<noteq> None"
      using Cons.prems by (simp add: init_at_frame)
    from Cons.IH [OF this] True ptr show ?thesis
      by (simp add: Var_present)
  qed
qed

lemma CreateVariables_unfold:
  assumes "Block desc block_id = Inr b" and "root_of h sc = Some r"
  shows "CreateVariables k init desc block_id persistable (Some sc) h =
           map_option Inr (create_vars k init persistable sc r (AllVars b) h)"
  using assms root_of_not_self_parent [OF assms(2)]
  by (simp add: CreateVariables_def)

text \<open>
  Claim C4.  For a scope whose walk up the parent links ends, at the root \<open>r\<close>, the call
  for the persistent variables returns; afterwards every declared persistent variable
  with a name other than the empty name is in the root scope; a name the root scope
  had keeps its variable, and the variables allocated before keep their contents; only
  declared persistent names are added, and only to the root scope.  A second call on the
  resulting heap returns that heap: the address and the contents of every variable are
  unchanged.
\<close>

theorem persistent_variables_created_once:
  assumes "Block desc block_id = Inr b" and "root_of h sc = Some r"
  shows "\<exists>h1. CreateVariables k init desc block_id True (Some sc) h = Some (Inr h1) \<and>
     (\<forall>var \<in> set (AllVars b). var_name var \<noteq> k \<and> var_persistable var \<longrightarrow>
         scope_vars h1 r (var_name var) \<noteq> None) \<and>
     (\<forall>n v. scope_vars h r n = Some v \<longrightarrow> scope_vars h1 r n = Some v) \<and>
     (\<forall>n. scope_vars h r n = None \<and> scope_vars h1 r n \<noteq> None \<longrightarrow>
         (\<exists>var \<in> set (AllVars b). var_name var = n \<and> n \<noteq> k \<and> var_persistable var)) \<and>
     (\<forall>s. s \<noteq> r \<longrightarrow> scope_vars h1 s = scope_vars h s) \<and>
     (\<forall>p < next_addr h. variables h1 p = variables h p) \<and>
     CreateVariables k init desc block_id True (Some sc) h1 = Some (Inr h1)"
proof -
  have root: "scope_parent h r = None" by (rule root_of_parentless [OF assms(2)])
  from create_vars_persistent [OF root, of k init sc "AllVars b"] obtain h1 where h1:
    "create_vars k init True sc r (AllVars b) h = Some h1"
    "scope_parent h1 = scope_parent h"
    "\<forall>s. s \<noteq> r \<longrightarrow> scope_vars h1 s = scope_vars h s"
    "\<forall>n v. scope_vars h r n = Some v \<longrightarrow> scope_vars h1 r n = Some v"
    "\<forall>n. scope_vars h r n = None \<and> scope_vars h1 r n \<noteq> None \<longrightarrow>
           (\<exists>var \<in> set (AllVars b). var_name var = n \<and> n \<noteq> k \<and> var_persistable var)"
    "\<forall>var \<in> set (AllVars b). var_name var \<noteq> k \<and> var_persistable var \<longrightarrow>
           scope_vars h1 r (var_name var) \<noteq> None"
    "\<forall>p < next_addr h. variables h1 p = variables h p"
    by blast
  have first: "CreateVariables k init desc block_id True (Some sc) h = Some (Inr h1)"
    using CreateVariables_unfold [OF assms] h1(1) by simp
  have root1: "root_of h1 sc = Some r" by (rule root_of_cong [OF assms(2) h1(2)])
  have "scope_parent h1 r = None" using root h1(2) by simp
  from create_vars_present [OF this h1(6)]
  have "create_vars k init True sc r (AllVars b) h1 = Some h1" .
  then have second: "CreateVariables k init desc block_id True (Some sc) h1 = Some (Inr h1)"
    using CreateVariables_unfold [OF assms(1) root1] by simp
  from first second h1(3,4,5,6,7) show ?thesis by blast
qed

text \<open>
  The program \<open>demo_program\<close> and the child scope of \<open>nested_heap\<close>: \<open>w\<close> is created in
  the root scope, at address 2; the second call changes nothing.
\<close>

theorem persistent_variables_created_once_witness:
  "\<exists>h1. CreateVariables ''@EMPTY@'' fresh_storage demo_program 0 True (Some 1) nested_heap =
          Some (Inr h1) \<and>
        scope_vars h1 0 ''w'' = Some 2 \<and> scope_vars h1 1 = scope_vars nested_heap 1 \<and>
        scope_vars h1 0 ''x'' = None \<and> scope_vars h1 0 ''@EMPTY@'' = None \<and>
        CreateVariables ''@EMPTY@'' fresh_storage demo_program 0 True (Some 1) h1 =
          Some (Inr h1)"
proof -
  have blk: "Block demo_program 0 = Inr (demo_program ! 0)"
    by (simp add: Block_def demo_program_def)
  have root: "root_of nested_heap 1 = Some 0"
    by (simp add: root_of.simps nested_heap_def)
  from persistent_variables_created_once [OF blk root, of "''@EMPTY@''" fresh_storage]
  obtain h1 where h1:
    "CreateVariables ''@EMPTY@'' fresh_storage demo_program 0 True (Some 1) nested_heap =
       Some (Inr h1)"
    "\<forall>s. s \<noteq> 0 \<longrightarrow> scope_vars h1 s = scope_vars nested_heap s"
    "\<forall>n. scope_vars nested_heap 0 n = None \<and> scope_vars h1 0 n \<noteq> None \<longrightarrow>
         (\<exists>var \<in> set (AllVars (demo_program ! 0)). var_name var = n \<and> n \<noteq> ''@EMPTY@'' \<and>
            var_persistable var)"
    "CreateVariables ''@EMPTY@'' fresh_storage demo_program 0 True (Some 1) h1 = Some (Inr h1)"
    by blast
  have "create_vars ''@EMPTY@'' fresh_storage True 1 0 (AllVars (demo_program ! 0)) nested_heap =
      Some (init_at fresh_storage 2 7
        (nested_heap\<lparr>scope_vars := (scope_vars nested_heap)(0 := [''w'' \<mapsto> 2]),
           variables := (variables nested_heap)(2 := Uninitialized), next_addr := 3\<rparr>))"
    by (simp add: demo_program_def FindVar_parentless nested_heap_def Var_def)
  with h1(1) have w: "scope_vars h1 0 ''w'' = Some 2"
    unfolding CreateVariables_unfold [OF blk root] by (auto simp: init_at_def)
  from h1(2) have s1: "scope_vars h1 1 = scope_vars nested_heap 1" by simp
  from h1(3) have x: "scope_vars h1 0 ''x'' = None" "scope_vars h1 0 ''@EMPTY@'' = None"
    by (auto simp: nested_heap_def demo_program_def)
  from h1(1,4) w s1 x show ?thesis by blast
qed

text \<open>
  Claim C7.  With a null scope pointer \<open>CreateVariables\<close> fails with the enforce failure
  "The Scope to hold variables is nullptr."; with a scope that is its own parent (and a
  block id that names a block) it fails with the enforce failure "Input scope should be
  child scope."; both are failures of the kind the specification calls a precondition
  violation, and the result of either carries no heap: no variable has been created.
  For a scope that is neither, no failure of that kind is raised.
\<close>

theorem CreateVariables_rejects_bad_scope:
  "CreateVariables k init desc block_id persistable None h =
     Some (Inl (InvalidArgument ''The Scope to hold variables is nullptr.'')) \<and>
   is_precondition_violation (InvalidArgument ''The Scope to hold variables is nullptr.'') \<and>
   (Block desc block_id = Inr b \<and> scope_parent h sc = Some sc \<longrightarrow>
      CreateVariables k init desc block_id persistable (Some sc) h =
        Some (Inl (InvalidArgument ''Input scope should be child scope.'')) \<and>
      is_precondition_violation (InvalidArgument ''Input scope should be child scope.'')) \<and>
   (scope_parent h sc \<noteq> Some sc \<longrightarrow>
      (\<forall>e. CreateVariables k init desc block_id persistable (Some sc) h = Some (Inl e) \<longrightarrow>
           \<not> is_precondition_violation e))"
  by (auto simp: CreateVariables_def Block_def split: option.splits if_splits)

text \<open>
  The scope of \<open>self_parent_heap\<close> is rejected, the child scope of \<open>nested_heap\<close> is
  not.
\<close>

theorem CreateVariables_rejects_bad_scope_witness:
  "CreateVariables ''@EMPTY@'' fresh_storage demo_program 0 True (Some 0) self_parent_heap =
     Some (Inl (InvalidArgument ''Input scope should be child scope.'')) \<and>
   is_precondition_violation (InvalidArgument ''Input scope should be child scope.'') \<and>
   scope_parent nested_heap 1 \<noteq> Some 1 \<and>
   CreateVariables ''@EMPTY@'' fresh_storage demo_program 0 True (Some 1) nested_heap \<noteq>
     Some (Inl (InvalidArgument ''Input scope should be child scope.'')) \<and>
   CreateVariables ''@EMPTY@'' fresh_storage demo_program 0 True (Some 1) nested_heap \<noteq>
     Some (Inl (InvalidArgument ''The Scope to hold variables is nullptr.''))"
proof -
  have blk: "Block demo_program 0 = Inr (demo_program ! 0)"
    by (simp add: Block_def demo_program_def)
  have self: "scope_parent self_parent_heap 0 = Some 0"
    by (simp add: self_parent_heap_def)
  have ok: "scope_parent nested_heap 1 \<noteq> Some 1"
    by (simp add: nested_heap_def)
  note bad_scope = CreateVariables_rejects_bad_scope
    [of "''@EMPTY@''" fresh_storage demo_program 0 True self_parent_heap "demo_program ! 0" 0]
  from bad_scope blk self have bad:
    "CreateVariables ''@EMPTY@'' fresh_storage demo_program 0 True (Some 0) self_parent_heap =
       Some (Inl (InvalidArgument ''Input scope should be child scope.''))"
    by blast
  note good_scope = CreateVariables_rejects_bad_scope
    [of "''@EMPTY@''" fresh_storage demo_program 0 True nested_heap "demo_program ! 0" 1]
  from good_scope ok have none:
    "\<forall>e. CreateVariables ''@EMPTY@'' fresh_storage demo_program 0 True (Some 1) nested_heap =
        Some (Inl e) \<longrightarrow> \<not> is_precondition_violation e"
    by blast
  have "CreateVariables ''@EMPTY@'' fresh_storage demo_program 0 True (Some 1) nested_heap \<noteq>
     Some (Inl (InvalidArgument msg))" for msg
    using none by auto
  with bad ok show ?thesis by simp
qed

lemma create_vars_contents:
  assumes "create_vars k InitializeVariable False sc anc vars h = Some h1"
  shows "variables h1 p = variables h p \<or>
     (\<exists>d \<in> set vars. created_locally k d \<and> variables h1 p = zero_storage (var_type d))"
  using assms
proof (induction vars arbitrary: h)
  case Nil
  then show ?case by simp
next
  case (Cons var vars)
  show ?case
  proof (cases "created_locally k var")
    case False
    with Cons.prems have "create_vars k InitializeVariable False sc anc vars h = Some h1"
      by (auto simp: created_locally_def split: if_splits)
    from Cons.IH [OF this] show ?thesis by auto
  next
    case True
    obtain ptr h' where var: "Var h sc (var_name var) = (ptr, h')"
      by (cases "Var h sc (var_name var)")
    define h'' where "h'' = init_at InitializeVariable ptr (var_type var) h'"
    from True var Cons.prems have rest:
      "create_vars k InitializeVariable False sc anc vars h'' = Some h1"
      by (simp add: h''_def created_locally_def)
    have step: "variables h'' p = variables h p \<or> variables h'' p = zero_storage (var_type var)"
      using var
      by (auto simp: h''_def init_at_def InitializeVariable_def Var_def split: option.splits)
    from Cons.IH [OF rest] step True show ?thesis by auto
  qed
qed

lemma create_vars_zero:
  assumes "create_vars k InitializeVariable False sc anc vars h = Some h1"
    and "var \<in> set vars" and "created_locally k var"
  shows "\<exists>p. scope_vars h1 sc (var_name var) = Some p \<and>
     (\<exists>d \<in> set vars. created_locally k d \<and> variables h1 p = zero_storage (var_type d))"
  using assms
proof (induction vars arbitrary: h)
  case Nil
  then show ?case by simp
next
  case (Cons v vars)
  have later: ?case
    if rest: "create_vars k InitializeVariable False sc anc vars h2 = Some h1"
      and "var \<in> set vars" for h2
    using Cons.IH [OF rest that(2) Cons.prems(3)] by auto
  show ?case
  proof (cases "created_locally k v")
    case False
    with Cons.prems(1) have rest: "create_vars k InitializeVariable False sc anc vars h = Some h1"
      by (auto simp: created_locally_def split: if_splits)
    from False Cons.prems(2,3) have "var \<in> set vars" by auto
    from later [OF rest this] show ?thesis .
  next
    case True
    obtain ptr h' where v: "Var h sc (var_name v) = (ptr, h')"
      by (cases "Var h sc (var_name v)")
    define h'' where "h'' = init_at InitializeVariable ptr (var_type v) h'"
    from True v Cons.prems(1) have rest:
      "create_vars k InitializeVariable False sc anc vars h'' = Some h1"
      by (simp add: h''_def created_locally_def)
    show ?thesis
    proof (cases "var \<in> set vars")
      case True
      from later [OF rest this] show ?thesis .
    next
      case False
      with Cons.prems(2) have same: "var = v" by simp
      have here: "scope_vars h'' sc (var_name v) = Some ptr"
        using Var_props(2) [OF v] by (simp add: h''_def init_at_frame)
      have zero: "variables h'' ptr = zero_storage (var_type v)"
        by (simp add: h''_def init_at_def InitializeVariable_def)
      from create_vars_local [of k InitializeVariable sc anc vars h''] rest here
      have kept: "scope_vars h1 sc (var_name v) = Some ptr" by auto
      from create_vars_contents [OF rest, of ptr] zero
      have "variables h1 ptr = zero_storage (var_type v) \<or>
        (\<exists>d \<in> set vars. created_locally k d \<and> variables h1 ptr = zero_storage (var_type d))"
        by simp
      with \<open>created_locally k v\<close> have
        "\<exists>d \<in> set (v # vars). created_locally k d \<and> variables h1 ptr = zero_storage (var_type d)"
        by auto
      with kept same show ?thesis by blast
    qed
  qed
qed

text \<open>
  Claim C5.  The call for the variables that are not persistent returns, whatever
  \<open>InitializeVariable\<close> does; afterwards every declared variable that is not persistent
  and has a name other than the empty name is in the supplied scope, with no test
  whether it was there before, and no other scope changes.  With an initialization that
  creates fresh zero-initialized storage, every such variable then holds new, empty
  storage of a declared type.  A second call, on a heap with the same scopes in which
  the variables hold anything whatever, returns; every such variable is still in the
  supplied scope, at the address it had, and holds new, empty storage again: what it
  held before the second call is not preserved.
\<close>

theorem variables_created_in_supplied_scope:
  assumes "Block desc block_id = Inr b" and "root_of h sc = Some r"
  shows "(\<exists>h1. CreateVariables k init desc block_id False (Some sc) h = Some (Inr h1) \<and>
       (\<forall>var \<in> set (AllVars b). created_locally k var \<longrightarrow>
           scope_vars h1 sc (var_name var) \<noteq> None) \<and>
       (\<forall>n v. scope_vars h sc n = Some v \<longrightarrow> scope_vars h1 sc n = Some v) \<and>
       (\<forall>s. s \<noteq> sc \<longrightarrow> scope_vars h1 s = scope_vars h s)) \<and>
     (\<exists>h1. CreateVariables k InitializeVariable desc block_id False (Some sc) h = Some (Inr h1) \<and>
       (\<forall>var \<in> set (AllVars b). created_locally k var \<longrightarrow>
          (\<exists>p. scope_vars h1 sc (var_name var) = Some p \<and>
             (\<exists>d \<in> set (AllVars b). created_locally k d \<and>
                variables h1 p = zero_storage (var_type d)))) \<and>
       (\<forall>filled. scope_vars filled = scope_vars h1 \<and> scope_parent filled = scope_parent h1 \<longrightarrow>
          (\<exists>h2. CreateVariables k InitializeVariable desc block_id False (Some sc) filled =
                  Some (Inr h2) \<and>
             scope_vars h2 = scope_vars h1 \<and> next_addr h2 = next_addr filled \<and>
             (\<forall>var \<in> set (AllVars b). created_locally k var \<longrightarrow>
                (\<exists>p. scope_vars h1 sc (var_name var) = Some p \<and>
                   scope_vars h2 sc (var_name var) = Some p \<and>
                   (\<exists>d \<in> set (AllVars b). created_locally k d \<and>
                      variables h2 p = zero_storage (var_type d)))))))"
proof -
  have local: "\<exists>h1. CreateVariables k f desc block_id False (Some sc) h = Some (Inr h1) \<and>
       create_vars k f False sc r (AllVars b) h = Some h1 \<and>
       scope_parent h1 = scope_parent h \<and>
       (\<forall>var \<in> set (AllVars b). created_locally k var \<longrightarrow>
           scope_vars h1 sc (var_name var) \<noteq> None) \<and>
       (\<forall>n v. scope_vars h sc n = Some v \<longrightarrow> scope_vars h1 sc n = Some v) \<and>
       (\<forall>s. s \<noteq> sc \<longrightarrow> scope_vars h1 s = scope_vars h s)" for f
  proof -
    from create_vars_local [of k f sc r "AllVars b" h] obtain h1 where h1:
      "create_vars k f False sc r (AllVars b) h = Some h1"
      "scope_parent h1 = scope_parent h"
      "\<forall>s. s \<noteq> sc \<longrightarrow> scope_vars h1 s = scope_vars h s"
      "\<forall>n v. scope_vars h sc n = Some v \<longrightarrow> scope_vars h1 sc n = Some v"
      "\<forall>var \<in> set (AllVars b). var_name var \<noteq> k \<and> \<not> var_persistable var \<longrightarrow>
             scope_vars h1 sc (var_name var) \<noteq> None"
      by blast
    have "CreateVariables k f desc block_id False (Some sc) h = Some (Inr h1)"
      using CreateVariables_unfold [OF assms] h1(1) by simp
    with h1 show ?thesis unfolding created_locally_def by blast
  qed
  from local [of init] have first:
    "\<exists>h1. CreateVariables k init desc block_id False (Some sc) h = Some (Inr h1) \<and>
       (\<forall>var \<in> set (AllVars b). created_locally k var \<longrightarrow>
           scope_vars h1 sc (var_name var) \<noteq> None) \<and>
       (\<forall>n v. scope_vars h sc n = Some v \<longrightarrow> scope_vars h1 sc n = Some v) \<and>
       (\<forall>s. s \<noteq> sc \<longrightarrow> scope_vars h1 s = scope_vars h s)"
    by blast
  from local [of InitializeVariable] obtain h1 where h1:
    "CreateVariables k InitializeVariable desc block_id False (Some sc) h = Some (Inr h1)"
    "create_vars k InitializeVariable False sc r (AllVars b) h = Some h1"
    "scope_parent h1 = scope_parent h"
    "\<forall>var \<in> set (AllVars b). created_locally k var \<longrightarrow> scope_vars h1 sc (var_name var) \<noteq> None"
    by blast
  have zero1: "\<forall>var \<in> set (AllVars b). created_locally k var \<longrightarrow>
          (\<exists>p. scope_vars h1 sc (var_name var) = Some p \<and>
             (\<exists>d \<in> set (AllVars b). created_locally k d \<and>
                variables h1 p = zero_storage (var_type d)))"
    using create_vars_zero [OF h1(2)] by blast
  have again: "\<exists>h2. CreateVariables k InitializeVariable desc block_id False (Some sc) filled =
                  Some (Inr h2) \<and>
             scope_vars h2 = scope_vars h1 \<and> next_addr h2 = next_addr filled \<and>
             (\<forall>var \<in> set (AllVars b). created_locally k var \<longrightarrow>
                (\<exists>p. scope_vars h1 sc (var_name var) = Some p \<and>
                   scope_vars h2 sc (var_name var) = Some p \<and>
                   (\<exists>d \<in> set (AllVars b). created_locally k d \<and>
                      variables h2 p = zero_storage (var_type d))))"
    if same: "scope_vars filled = scope_vars h1 \<and> scope_parent filled = scope_parent h1"
    for filled
  proof -
    define h2 where "h2 = reinitialized k InitializeVariable sc (AllVars b) filled"
    have root1: "root_of h1 sc = Some r" by (rule root_of_cong [OF assms(2) h1(3)])
    have root2: "root_of filled sc = Some r"
      using root_of_cong [OF root1, of filled] same by simp
    have present: "\<forall>var \<in> set (AllVars b). var_name var \<noteq> k \<and> \<not> var_persistable var \<longrightarrow>
           scope_vars filled sc (var_name var) \<noteq> None"
      using h1(4) same by (simp add: created_locally_def)
    from create_vars_local_again [OF present] have cv:
      "create_vars k InitializeVariable False sc r (AllVars b) filled = Some h2"
      by (simp add: h2_def)
    then have call: "CreateVariables k InitializeVariable desc block_id False (Some sc) filled =
        Some (Inr h2)"
      using CreateVariables_unfold [OF assms(1) root2] by simp
    from reinitialized_frame [of k InitializeVariable sc "AllVars b" filled] same
    have frame: "scope_vars h2 = scope_vars h1" "next_addr h2 = next_addr filled"
      by (simp_all add: h2_def)
    have "\<forall>var \<in> set (AllVars b). created_locally k var \<longrightarrow>
                (\<exists>p. scope_vars h1 sc (var_name var) = Some p \<and>
                   scope_vars h2 sc (var_name var) = Some p \<and>
                   (\<exists>d \<in> set (AllVars b). created_locally k d \<and>
                      variables h2 p = zero_storage (var_type d)))"
      using create_vars_zero [OF cv] frame(1) by fastforce
    with call frame show ?thesis by blast
  qed
  from first h1(1) zero1 again show ?thesis by blast
qed

text \<open>
  The program \<open>demo_program\<close> and the child scope of \<open>nested_heap\<close>: the first call
  creates \<open>x\<close> at address 2 with an empty dense tensor.  When \<open>x\<close> has been filled with
  100 bytes, the second call leaves \<open>x\<close> at address 2, holding an empty dense tensor
  again.
\<close>

theorem variables_created_in_supplied_scope_witness:
  "CreateVariables ''@EMPTY@'' InitializeVariable demo_program 0 False (Some 1) nested_heap =
     Some (Inr created_once) \<and>
   scope_vars created_once 1 ''x'' = Some 2 \<and>
   variables created_once 2 = DenseTensor \<lparr>holder = None, dims = []\<rparr> \<and>
   variables filled_once 2 = tensor_of_size 9 100 \<and>
   (\<exists>h2. CreateVariables ''@EMPTY@'' InitializeVariable demo_program 0 False (Some 1) filled_once =
           Some (Inr h2) \<and>
      scope_vars h2 1 ''x'' = Some 2 \<and>
      variables h2 2 = DenseTensor \<lparr>holder = None, dims = []\<rparr> \<and>
      variables h2 2 \<noteq> variables filled_once 2)"
proof -
  have blk: "Block demo_program 0 = Inr (demo_program ! 0)"
    by (simp add: Block_def demo_program_def)
  have root: "root_of nested_heap 1 = Some 0"
    by (simp add: root_of.simps nested_heap_def)
  have "create_vars ''@EMPTY@'' InitializeVariable False 1 0 (AllVars (demo_program ! 0))
      nested_heap = Some created_once"
    by (simp add: demo_program_def nested_heap_def Var_def init_at_def created_once_def
        InitializeVariable_def zero_storage_def fun_eq_iff)
  then have first: "CreateVariables ''@EMPTY@'' InitializeVariable demo_program 0 False (Some 1)
      nested_heap = Some (Inr created_once)"
    unfolding CreateVariables_unfold [OF blk root] by simp
  have x: "scope_vars created_once 1 ''x'' = Some 2"
    "variables created_once 2 = DenseTensor \<lparr>holder = None, dims = []\<rparr>"
    "variables filled_once 2 = tensor_of_size 9 100"
    by (simp_all add: created_once_def filled_once_def)
  have same: "scope_vars filled_once = scope_vars created_once \<and>
      scope_parent filled_once = scope_parent created_once"
    by (simp add: filled_once_def)
  have decl: "\<lparr>var_name = ''x'', var_persistable = False, var_type = 7\<rparr> \<in>
      set (AllVars (demo_program ! 0))"
    "created_locally ''@EMPTY@'' \<lparr>var_name = ''x'', var_persistable = False, var_type = 7\<rparr>"
    by (simp_all add: demo_program_def created_locally_def)
  from variables_created_in_supplied_scope
    [OF blk root, of "''@EMPTY@''" InitializeVariable, THEN conjunct2]
  obtain h1 where h1:
    "CreateVariables ''@EMPTY@'' InitializeVariable demo_program 0 False (Some 1) nested_heap =
       Some (Inr h1)"
    "\<forall>filled. scope_vars filled = scope_vars h1 \<and> scope_parent filled = scope_parent h1 \<longrightarrow>
          (\<exists>h2. CreateVariables ''@EMPTY@'' InitializeVariable demo_program 0 False (Some 1)
                  filled = Some (Inr h2) \<and>
             scope_vars h2 = scope_vars h1 \<and> next_addr h2 = next_addr filled \<and>
             (\<forall>var \<in> set (AllVars (demo_program ! 0)). created_locally ''@EMPTY@'' var \<longrightarrow>
                (\<exists>p. scope_vars h1 1 (var_name var) = Some p \<and>
                   scope_vars h2 1 (var_name var) = Some p \<and>
                   (\<exists>d \<in> set (AllVars (demo_program ! 0)). created_locally ''@EMPTY@'' d \<and>
                      variables h2 p = zero_storage (var_type d)))))"
    by blast
  from h1(1) first have h1_eq: "h1 = created_once" by simp
  from h1(2) [unfolded h1_eq, rule_format, OF same] obtain h2 where h2:
    "CreateVariables ''@EMPTY@'' InitializeVariable demo_program 0 False (Some 1) filled_once =
       Some (Inr h2)"
    "\<forall>var \<in> set (AllVars (demo_program ! 0)). created_locally ''@EMPTY@'' var \<longrightarrow>
        (\<exists>p. scope_vars created_once 1 (var_name var) = Some p \<and>
           scope_vars h2 1 (var_name var) = Some p \<and>
           (\<exists>d \<in> set (AllVars (demo_program ! 0)). created_locally ''@EMPTY@'' d \<and>
              variables h2 p = zero_storage (var_type d)))"
    by blast
  from h2(2) [rule_format, OF decl] x(1) obtain d where d:
    "scope_vars h2 1 ''x'' = Some 2" "d \<in> set (AllVars (demo_program ! 0))"
    "created_locally ''@EMPTY@'' d" "variables h2 2 = zero_storage (var_type d)"
    by auto
  from d(2,3) have "var_type d = 7"
    by (auto simp: demo_program_def created_locally_def)
  with d(4) have z: "variables h2 2 = DenseTensor \<lparr>holder = None, dims = []\<rparr>"
    by (simp add: zero_storage_def)
  with x(3) have "variables h2 2 \<noteq> variables filled_once 2"
    by (simp add: tensor_of_size_def)
  with first x h2(1) d(1) z show ?thesis by blast
qed


section \<open>The reuse plan and looking up tensors\<close>

lemma index_of_less: "x \<in> set xs \<Longrightarrow> index_of xs x < length xs"
  by (induction xs) auto

lemma insert_cluster_keys:
  "fst ` set (insert_cluster target name cl) = insert target (fst ` set cl)"
  by (induction cl) auto

lemma clusters_of_keys:
  "fst ` set (clusters_of table cl) = fst ` set cl \<union> snd ` set table"
proof (induction table arbitrary: cl)
  case Nil
  then show ?case by simp
next
  case (Cons it table)
  have "fst ` set (clusters_of (it # table) cl) =
      fst ` set (insert_cluster (snd it) (fst it) cl) \<union> snd ` set table"
    using Cons.IH by simp
  also have "\<dots> = insert (snd it) (fst ` set cl) \<union> snd ` set table"
    by (simp only: insert_cluster_keys)
  finally show ?case by auto
qed

lemma enumerates_target:
  assumes "enumerates cluster_names reuse_table" and "map_of reuse_table name = Some reuse_name"
  shows "index_of cluster_names reuse_name < length cluster_names"
proof -
  from assms(2) have "(name, reuse_name) \<in> set reuse_table" by (rule map_of_SomeD)
  then have "reuse_name \<in> snd ` set reuse_table" by force
  with assms(1) have "reuse_name \<in> set cluster_names"
    by (simp add: enumerates_def clusters_of_keys)
  then show ?thesis by (rule index_of_less)
qed

lemma set_emplace: "set (emplace m t idx) \<subseteq> insert (t, idx) (set m)"
  by (auto simp: emplace_def)

lemma map_of_replace_map:
  "map_of (replace_map cache i m) j =
     (if j = i \<and> map_of cache i \<noteq> None then Some m else map_of cache j)"
  by (induction cache) auto

lemma all_entries_replace_map:
  "set (all_entries (replace_map cache i m)) \<subseteq> set m \<union> set (all_entries cache)"
  by (induction cache) (auto simp: all_entries_def)

lemma map_of_all_entries:
  "map_of cache i = Some m \<Longrightarrow> set m \<subseteq> set (all_entries cache)"
  by (auto simp: all_entries_def dest!: map_of_SomeD)

lemma all_entries_record_entry:
  "set (all_entries (record_entry cache i t idx)) \<subseteq> insert (t, idx) (set (all_entries cache))"
proof (cases "map_of cache i")
  case None
  then show ?thesis by (auto simp: record_entry_def all_entries_def)
next
  case (Some m)
  from all_entries_replace_map [of cache i "emplace m t idx"] set_emplace [of m t idx]
    map_of_all_entries [OF Some]
  show ?thesis using Some by (auto simp: record_entry_def)
qed

lemma map_of_append_new:
  "map_of cache i = None \<Longrightarrow> map_of (cache @ [(i, m)]) j = (if j = i then Some m else map_of cache j)"
  by (induction cache) (auto simp del: map_of_append)

lemma entries_of_record_entry:
  "set (entries_of j (record_entry cache i t idx)) \<subseteq>
     (if j = i then insert (t, idx) (set (entries_of j cache)) else set (entries_of j cache))"
proof (cases "map_of cache i")
  case None
  then show ?thesis
    by (auto simp: record_entry_def entries_of_def map_of_append_new simp del: map_of_append)
next
  case (Some m)
  with set_emplace [of m t idx] show ?thesis
    by (auto simp: record_entry_def entries_of_def map_of_replace_map)
qed

lemma slots_set_record:
  assumes "slots_set cache cb" and "idx < length cb"
  shows "slots_set (record_entry cache i t idx) (cb[idx := Some rt])"
  unfolding slots_set_def
proof
  fix it assume "it \<in> set (all_entries (record_entry cache i t idx))"
  with all_entries_record_entry [of cache i t idx]
  have "it = (t, idx) \<or> it \<in> set (all_entries cache)" by auto
  then show "snd it < length (cb[idx := Some rt]) \<and> cb[idx := Some rt] ! snd it \<noteq> None"
  proof
    assume "it = (t, idx)"
    with assms(2) show ?thesis by simp
  next
    assume "it \<in> set (all_entries cache)"
    with assms(1) have "snd it < length cb" "cb ! snd it \<noteq> None"
      unfolding slots_set_def by auto
    then show ?thesis by (cases "snd it = idx") auto
  qed
qed

lemma plan_name_refines:
  assumes "FindVar h sc name \<noteq> None"
    and "\<forall>rn. map_of reuse_table name = Some rn \<longrightarrow>
           FindVar h sc rn \<noteq> None \<and> index_of cluster_names rn < length cb"
  shows "plan_name h (Some sc) reuse_table cluster_names i name (cache, cb) =
     Some (Inr (case planned h sc reuse_table cluster_names name of
                  None \<Rightarrow> (cache, cb)
                | Some (t, idx, rt) \<Rightarrow> (record_entry cache i t idx, cb[idx := Some rt])))"
proof (cases "map_of reuse_table name")
  case None
  then show ?thesis by (simp add: plan_name_def planned_def)
next
  case (Some rn)
  with assms obtain var reuse_var where
    fv: "FindVar h sc name = Some var" "FindVar h sc rn = Some reuse_var"
    and idx: "index_of cluster_names rn < length cb"
    by auto
  show ?thesis
    using Some fv idx
    by (cases var; cases reuse_var) (simp_all add: plan_name_def planned_def Let_def)
qed

lemma planned_index:
  assumes "planned h sc reuse_table cluster_names name = Some (t, idx, rt)"
  shows "\<exists>rn. map_of reuse_table name = Some rn \<and> idx = index_of cluster_names rn"
  using assms
  by (auto simp: planned_def split: option.splits if_splits)

lemma plan_name_slots:
  assumes "plan_name h scope reuse_table cluster_names i name (cache, cb) = Some (Inr (cache', cb'))"
    and "slots_set cache cb"
  shows "slots_set cache' cb' \<and> length cb' = length cb"
proof (cases "cache' = cache \<and> cb' = cb")
  case True
  with assms(2) show ?thesis by simp
next
  case False
  with assms(1) obtain t rt rn where
    "cache' = record_entry cache i t (index_of cluster_names rn)"
    "cb' = cb[index_of cluster_names rn := Some rt]"
    "index_of cluster_names rn < length cb"
    by (auto simp: plan_name_def Let_def split: option.splits if_splits)
  with slots_set_record [OF assms(2)] show ?thesis by simp
qed

lemma plan_name_in_range:
  assumes "\<forall>n rn. map_of reuse_table n = Some rn \<longrightarrow> index_of cluster_names rn < length cb"
  shows "plan_name h scope reuse_table cluster_names i name (cache, cb) \<noteq> Some (Inl OutOfRange)"
  using assms
  by (auto simp: plan_name_def Let_def split: option.splits if_splits)

lemma plan_names_slots:
  assumes "plan_names h scope reuse_table cluster_names i names (cache, cb) =
      Some (Inr (cache', cb'))"
    and "slots_set cache cb"
  shows "slots_set cache' cb' \<and> length cb' = length cb"
  using assms
proof (induction names arbitrary: cache cb)
  case Nil
  then show ?case by simp
next
  case (Cons name names)
  from Cons.prems(1) obtain cache1 cb1 where
    first: "plan_name h scope reuse_table cluster_names i name (cache, cb) = Some (Inr (cache1, cb1))"
    and rest: "plan_names h scope reuse_table cluster_names i names (cache1, cb1) =
      Some (Inr (cache', cb'))"
    by (auto split: option.splits sum.splits)
  from plan_name_slots [OF first Cons.prems(2)] have
    s1: "slots_set cache1 cb1" and l1: "length cb1 = length cb" by simp_all
  from Cons.IH [OF rest s1] l1 show ?case by simp
qed

lemma plan_names_length:
  assumes "plan_names h scope reuse_table cluster_names i names (cache, cb) =
      Some (Inr (cache', cb'))"
  shows "length cb' = length cb"
  using assms
proof (induction names arbitrary: cache cb)
  case Nil
  then show ?case by simp
next
  case (Cons name names)
  from Cons.prems(1) obtain cache1 cb1 where
    first: "plan_name h scope reuse_table cluster_names i name (cache, cb) = Some (Inr (cache1, cb1))"
    and rest: "plan_names h scope reuse_table cluster_names i names (cache1, cb1) =
      Some (Inr (cache', cb'))"
    by (auto split: option.splits sum.splits)
  from first have "length cb1 = length cb"
    by (auto simp: plan_name_def Let_def split: option.splits if_splits)
  with Cons.IH [OF rest] show ?case by simp
qed

lemma plan_names_in_range:
  assumes "\<forall>n rn. map_of reuse_table n = Some rn \<longrightarrow> index_of cluster_names rn < length cb"
  shows "plan_names h scope reuse_table cluster_names i names (cache, cb) \<noteq>
           Some (Inl OutOfRange)"
  using assms
proof (induction names arbitrary: cache cb)
  case Nil
  then show ?case by simp
next
  case (Cons name names)
  show ?case
  proof (cases "plan_name h scope reuse_table cluster_names i name (cache, cb)")
    case None
    then show ?thesis by simp
  next
    case (Some res)
    show ?thesis
    proof (cases res)
      case (Inl err)
      with Some plan_name_in_range [OF Cons.prems, of h scope i name cache]
      show ?thesis by auto
    next
      case (Inr s1)
      obtain cache1 cb1 where s1: "s1 = (cache1, cb1)" by (cases s1)
      from Some Inr s1 have "length cb1 = length cb"
        by (auto simp: plan_name_def Let_def split: option.splits if_splits)
      with Cons.prems have "\<forall>n rn. map_of reuse_table n = Some rn \<longrightarrow>
          index_of cluster_names rn < length cb1"
        by simp
      from Cons.IH [OF this] Some Inr s1 show ?thesis by simp
    qed
  qed
qed

lemma plan_ops_slots:
  assumes "plan_ops h scope reuse_table cluster_names i ops (cache, cb) =
      Some (Inr (cache', cb'))"
    and "slots_set cache cb"
  shows "slots_set cache' cb' \<and> length cb' = length cb"
  using assms
proof (induction ops arbitrary: i cache cb)
  case Nil
  then show ?case by simp
next
  case (Cons op ops)
  from Cons.prems(1) obtain cache1 cb1 where
    first: "plan_names h scope reuse_table cluster_names i (output_vars op) (cache, cb) =
      Some (Inr (cache1, cb1))"
    and rest: "plan_ops h scope reuse_table cluster_names (Suc i) ops (cache1, cb1) =
      Some (Inr (cache', cb'))"
    by (auto split: option.splits sum.splits)
  from plan_names_slots [OF first Cons.prems(2)] have
    s1: "slots_set cache1 cb1" and l1: "length cb1 = length cb" by simp_all
  from Cons.IH [OF rest s1] l1 show ?case by simp
qed

lemma plan_ops_in_range:
  assumes "\<forall>n rn. map_of reuse_table n = Some rn \<longrightarrow> index_of cluster_names rn < length cb"
  shows "plan_ops h scope reuse_table cluster_names i ops (cache, cb) \<noteq> Some (Inl OutOfRange)"
  using assms
proof (induction ops arbitrary: i cache cb)
  case Nil
  then show ?case by simp
next
  case (Cons op ops)
  show ?case
  proof (cases "plan_names h scope reuse_table cluster_names i (output_vars op) (cache, cb)")
    case None
    then show ?thesis by simp
  next
    case (Some res)
    show ?thesis
    proof (cases res)
      case (Inl err)
      with Some plan_names_in_range [OF Cons.prems, of h scope i "output_vars op" cache]
      show ?thesis by auto
    next
      case (Inr s1)
      obtain cache1 cb1 where s1: "s1 = (cache1, cb1)" by (cases s1)
      from Some Inr s1 have "length cb1 = length cb"
        using plan_names_length by simp
      with Cons.prems have "\<forall>n rn. map_of reuse_table n = Some rn \<longrightarrow>
          index_of cluster_names rn < length cb1"
        by simp
      from Cons.IH [OF this] Some Inr s1 show ?thesis by simp
    qed
  qed
qed

lemma length_resize: "length (resize n xs) = n"
  by (simp add: resize_def)

lemma share_entries_error:
  assumes "share_entries cb cid m h = Inl e" and "cluster_slot cb cid = Inr c"
  shows "e = InvalidTensorPointer"
  using assms
proof (induction m arbitrary: h)
  case Nil
  then show ?case by simp
next
  case (Cons it m)
  show ?case
  proof (cases "snd it = cid")
    case False
    with Cons show ?thesis by simp
  next
    case True
    show ?thesis
    proof (cases "tensor_at h c")
      case (Inl err)
      with Cons.prems True show ?thesis
        by (simp add: tensor_at_def split: variable.splits)
    next
      case st: (Inr st)
      show ?thesis
      proof (cases "tensor_at h (fst it)")
        case (Inl err)
        with Cons.prems True st show ?thesis
          by (simp add: tensor_at_def split: variable.splits)
      next
        case (Inr t)
        with Cons.prems True st have "share_entries cb cid m
            (h\<lparr>variables := (variables h)(fst it := DenseTensor (ShareBufferWith t st))\<rparr>) = Inl e"
          by simp
        from Cons.IH [OF this Cons.prems(2)] show ?thesis .
      qed
    qed
  qed
qed

lemma share_cache_error:
  assumes "share_cache cb cid cache h = Inl e" and "cluster_slot cb cid = Inr c"
  shows "e = InvalidTensorPointer"
  using assms
proof (induction cache arbitrary: h)
  case Nil
  then show ?case by simp
next
  case (Cons op_map cache)
  show ?case
  proof (cases "share_entries cb cid (snd op_map) h")
    case (Inl err)
    with Cons.prems have "err = e" by simp
    with share_entries_error [OF Inl Cons.prems(2)] show ?thesis by simp
  next
    case (Inr h1)
    with Cons.prems have "share_cache cb cid cache h1 = Inl e" by simp
    from Cons.IH [OF this Cons.prems(2)] show ?thesis .
  qed
qed

lemma update_entry_error:
  assumes "update_entry cache it (cb, h) = Inl e"
    and "snd it < length cb" and "cb ! snd it \<noteq> None"
  shows "e = InvalidTensorPointer"
proof -
  from assms(2,3) obtain c where c: "cluster_slot cb (snd it) = Inr c"
    by (auto simp: cluster_slot_def)
  have slot': "cluster_slot (cb[snd it := Some (fst it)]) (snd it) = Inr (fst it)"
    using assms(2) by (simp add: cluster_slot_def)
  show ?thesis
  proof (cases "tensor_at h (fst it)")
    case (Inl err)
    with assms(1) show ?thesis
      by (simp add: update_entry_def tensor_at_def split: variable.splits)
  next
    case t: (Inr t)
    show ?thesis
    proof (cases "tensor_at h c")
      case (Inl err)
      with assms(1) t c show ?thesis
        by (simp add: update_entry_def tensor_at_def split: variable.splits)
    next
      case (Inr ct)
      with assms(1) t c have
        "share_cache (cb[snd it := Some (fst it)]) (snd it) cache h = Inl e"
        by (simp add: update_entry_def split: if_splits sum.splits)
      from share_cache_error [OF this slot'] show ?thesis .
    qed
  qed
qed

lemma update_entry_slots:
  assumes "update_entry cache it (cb, h) = Inr (cb', h')" and "slots_set cache cb"
  shows "slots_set cache cb'"
proof -
  obtain t cid where it: "it = (t, cid)" by (cases it)
  from update_entry_spec [OF assms(1) [unfolded it]]
  have "cid < length cb" and "cb' = cb[cid := Some t] \<or> cb' = cb"
    by (auto split: if_splits)
  with assms(2) show ?thesis
    unfolding slots_set_def
    by (auto simp: nth_list_update)
qed

lemma update_entries_safe:
  assumes "slots_set cache cb" and "set its \<subseteq> set (all_entries cache)"
  shows "(\<forall>e. update_entries cache its (cb, h) = Inl e \<longrightarrow> e = InvalidTensorPointer) \<and>
         (\<forall>cb' h'. update_entries cache its (cb, h) = Inr (cb', h') \<longrightarrow> slots_set cache cb')"
  using assms
proof (induction its arbitrary: cb h)
  case Nil
  then show ?case by simp
next
  case (Cons it its)
  from Cons.prems have here: "snd it < length cb" "cb ! snd it \<noteq> None"
    unfolding slots_set_def by auto
  show ?case
  proof (cases "update_entry cache it (cb, h)")
    case (Inl err)
    with update_entry_error [OF Inl here] show ?thesis by simp
  next
    case (Inr s1)
    obtain cb1 h1 where s1: "s1 = (cb1, h1)" by (cases s1)
    from update_entry_slots [OF Inr [unfolded s1] Cons.prems(1)]
    have "slots_set cache cb1" .
    moreover from Cons.prems(2) have "set its \<subseteq> set (all_entries cache)" by simp
    ultimately show ?thesis
      using Cons.IH [of cb1 h1] Inr s1 by simp
  qed
qed

lemma update_buffers_safe:
  assumes "slots_set cache cb"
  shows "(\<forall>e. update_buffers cache i (cb, h) = Inl e \<longrightarrow> e = InvalidTensorPointer) \<and>
         (\<forall>cb' h'. update_buffers cache i (cb, h) = Inr (cb', h') \<longrightarrow> slots_set cache cb')"
proof (cases "map_of cache i")
  case None
  with assms show ?thesis by (simp add: update_buffers_def)
next
  case (Some m)
  from update_entries_safe [OF assms map_of_all_entries [OF Some], of h] Some
  show ?thesis by (simp add: update_buffers_def)
qed

lemma call_hooks_error:
  "call_hooks ch fs i op sc h tr = (Some e, h', tr') \<Longrightarrow> \<exists>msg. e = External msg"
proof (induction fs arbitrary: h tr)
  case Nil
  then show ?case by simp
next
  case (Cons f fs)
  show ?case
  proof (cases "ch f op sc h")
    case (Inl msg)
    with Cons.prems show ?thesis by auto
  next
    case (Inr h1)
    with Cons.prems have "call_hooks ch fs i op sc h1 (tr @ [HookCall f i op]) = (Some e, h', tr')"
      by simp
    from Cons.IH [OF this] show ?thesis .
  qed
qed

lemma run_one_safe:
  assumes "run_one ex ch i op s = (r, s')"
    and "slots_set (m_reuse_cache (rs_exec s)) (m_cluster_buffer (rs_exec s))"
    and "m_scope (rs_exec s) \<noteq> None"
  shows "r \<noteq> Some NullPointer \<and> r \<noteq> Some OutOfRange \<and>
         slots_set (m_reuse_cache (rs_exec s')) (m_cluster_buffer (rs_exec s'))"
proof -
  define e where "e = rs_exec s"
  define op0 where "op0 = op\<lparr>is_called_by_executor := False\<rparr>"
  define op1 where "op1 = as_run (m_input_hookfuncs e) (m_output_hookfuncs e) op"
  from assms(3) obtain sc where sc: "m_scope e = Some sc" unfolding e_def by auto
  have slots: "slots_set (m_reuse_cache e) (m_cluster_buffer e)"
    using assms(2) unfolding e_def .
  obtain r1 h1 tr1 where c1:
    "call_hooks ch (m_input_hookfuncs e) i op0 (m_scope e) (rs_heap s) (rs_trace s) = (r1, h1, tr1)"
    by (metis prod_cases3)
  show ?thesis
  proof (cases r1)
    case (Some err)
    with call_hooks_error c1 obtain msg where "err = External msg" by blast
    with assms(1) c1 Some slots show ?thesis
      by (auto simp: run_one_def Let_def e_def op0_def)
  next
    case None
    show ?thesis
    proof (cases "ex op1 sc h1")
      case (Inl msg)
      with assms(1) c1 None sc slots show ?thesis
        by (auto simp: run_one_def Let_def e_def op0_def op1_def as_run_alt)
    next
      case (Inr h2)
      note upd = update_buffers_safe [OF slots, of i h2]
      show ?thesis
      proof (cases "update_buffers (m_reuse_cache e) i (m_cluster_buffer e, h2)")
        case failed: (Inl err)
        with upd have "err = InvalidTensorPointer" by simp
        with assms(1) c1 None sc Inr failed slots show ?thesis
          by (auto simp: run_one_def Let_def e_def op0_def op1_def as_run_alt)
      next
        case updated: (Inr s3)
        obtain cb h3 where s3: "s3 = (cb, h3)" by (cases s3)
        with upd updated have slots': "slots_set (m_reuse_cache e) cb" by simp
        obtain r4 h4 tr4 where c4:
          "call_hooks ch (m_output_hookfuncs e) i op1 (m_scope e) h3 (tr1 @ [OpRun i op1]) =
             (r4, h4, tr4)"
          by (metis prod_cases3)
        have r4: "r4 \<noteq> Some NullPointer \<and> r4 \<noteq> Some OutOfRange"
          using call_hooks_error [of ch _ i op1 _ h3 _ _ h4 tr4] c4 by (cases r4) auto
        from assms(1) c1 None sc Inr updated s3 c4 have
          "r = r4" "rs_exec s' = (e\<lparr>m_ops := (m_ops e)[i := op1]\<rparr>)\<lparr>m_cluster_buffer := cb\<rparr>"
          by (auto simp: run_one_def Let_def e_def op0_def op1_def as_run_alt)
        with r4 slots' show ?thesis by simp
      qed
    qed
  qed
qed

lemma run_ops_safe:
  assumes "run_ops ex ch i ops s = (r, s')"
    and "slots_set (m_reuse_cache (rs_exec s)) (m_cluster_buffer (rs_exec s))"
    and "m_scope (rs_exec s) \<noteq> None"
  shows "r \<noteq> Some NullPointer \<and> r \<noteq> Some OutOfRange \<and>
         slots_set (m_reuse_cache (rs_exec s')) (m_cluster_buffer (rs_exec s'))"
  using assms
proof (induction ops arbitrary: i s)
  case Nil
  then show ?case by simp
next
  case (Cons op ops)
  obtain r1 s1 where one: "run_one ex ch i op s = (r1, s1)" by (cases "run_one ex ch i op s")
  note safe1 = run_one_safe [OF one Cons.prems(2,3)]
  show ?case
  proof (cases r1)
    case (Some err)
    with Cons.prems(1) one have "r = Some err" "s' = s1" by auto
    with safe1 Some show ?thesis by simp
  next
    case None
    with Cons.prems(1) one have rest: "run_ops ex ch (Suc i) ops s1 = (r, s')" by simp
    from run_one_frame(3) [OF one] Cons.prems(3) have "m_scope (rs_exec s1) \<noteq> None" by simp
    with Cons.IH [OF rest] safe1 show ?thesis by simp
  qed
qed

lemma plan_names_props:
  assumes fv: "\<forall>n. FindVar h sc n \<noteq> None"
    and idx: "\<forall>n rn. map_of reuse_table n = Some rn \<longrightarrow> index_of cluster_names rn < length cb"
  shows "\<exists>cache' cb'.
      plan_names h (Some sc) reuse_table cluster_names i names (cache, cb) =
        Some (Inr (cache', cb')) \<and>
      length cb' = length cb \<and>
      (\<forall>j it. it \<in> set (entries_of j cache') \<longrightarrow>
         it \<in> set (entries_of j cache) \<or>
         (j = i \<and> (\<exists>name \<in> set names. \<exists>rt.
            planned h sc reuse_table cluster_names name = Some (fst it, snd it, rt)))) \<and>
      ((\<forall>name \<in> set names. planned h sc reuse_table cluster_names name = None) \<longrightarrow>
         cache' = cache \<and> cb' = cb)"
  using idx
proof (induction names arbitrary: cache cb)
  case Nil
  then show ?case by simp
next
  case (Cons name names)
  define s1 where "s1 = (case planned h sc reuse_table cluster_names name of
                  None \<Rightarrow> (cache, cb)
                | Some (t, idx, rt) \<Rightarrow> (record_entry cache i t idx, cb[idx := Some rt]))"
  obtain cache1 cb1 where s1: "s1 = (cache1, cb1)" by (cases s1)
  have first: "plan_name h (Some sc) reuse_table cluster_names i name (cache, cb) =
      Some (Inr (cache1, cb1))"
    using plan_name_refines [of h sc name reuse_table cluster_names cb i cache] fv Cons.prems
    unfolding s1_def [symmetric] s1 by simp
  have len1: "length cb1 = length cb"
    using s1 unfolding s1_def by (auto split: option.splits)
  have ent1: "it \<in> set (entries_of j cache) \<or>
      (j = i \<and> (\<exists>rt. planned h sc reuse_table cluster_names name = Some (fst it, snd it, rt)))"
    if "it \<in> set (entries_of j cache1)" for j it
  proof (cases "planned h sc reuse_table cluster_names name")
    case None
    with s1 that show ?thesis unfolding s1_def by simp
  next
    case (Some p)
    obtain t idx rt where p: "p = (t, idx, rt)" by (cases p)
    with Some s1 have "cache1 = record_entry cache i t idx" unfolding s1_def by simp
    with that entries_of_record_entry [of j cache i t idx]
    have "it \<in> set (entries_of j cache) \<or> (j = i \<and> it = (t, idx))"
      by (auto split: if_splits)
    with Some p show ?thesis by auto
  qed
  have none1: "cache1 = cache \<and> cb1 = cb"
    if "planned h sc reuse_table cluster_names name = None"
    using that s1 unfolding s1_def by simp
  from Cons.prems len1 have "\<forall>n rn. map_of reuse_table n = Some rn \<longrightarrow>
      index_of cluster_names rn < length cb1"
    by simp
  from Cons.IH [OF this, of cache1] obtain cache' cb' where rest:
    "plan_names h (Some sc) reuse_table cluster_names i names (cache1, cb1) =
        Some (Inr (cache', cb'))"
    "length cb' = length cb1"
    "\<forall>j it. it \<in> set (entries_of j cache') \<longrightarrow>
         it \<in> set (entries_of j cache1) \<or>
         (j = i \<and> (\<exists>name \<in> set names. \<exists>rt.
            planned h sc reuse_table cluster_names name = Some (fst it, snd it, rt)))"
    "(\<forall>name \<in> set names. planned h sc reuse_table cluster_names name = None) \<longrightarrow>
         cache' = cache1 \<and> cb' = cb1"
    by blast
  have a: "plan_names h (Some sc) reuse_table cluster_names i (name # names) (cache, cb) =
        Some (Inr (cache', cb'))"
    using first rest(1) by simp
  have b: "length cb' = length cb" using rest(2) len1 by simp
  have c: "\<forall>j it. it \<in> set (entries_of j cache') \<longrightarrow>
         it \<in> set (entries_of j cache) \<or>
         (j = i \<and> (\<exists>name \<in> set (name # names). \<exists>rt.
            planned h sc reuse_table cluster_names name = Some (fst it, snd it, rt)))"
  proof (intro allI impI)
    fix j it assume "it \<in> set (entries_of j cache')"
    with rest(3) have "it \<in> set (entries_of j cache1) \<or>
         (j = i \<and> (\<exists>name \<in> set names. \<exists>rt.
            planned h sc reuse_table cluster_names name = Some (fst it, snd it, rt)))"
      by blast
    then show "it \<in> set (entries_of j cache) \<or>
         (j = i \<and> (\<exists>name \<in> set (name # names). \<exists>rt.
            planned h sc reuse_table cluster_names name = Some (fst it, snd it, rt)))"
    proof
      assume "it \<in> set (entries_of j cache1)"
      from ent1 [OF this] show ?thesis by auto
    next
      assume "j = i \<and> (\<exists>name \<in> set names. \<exists>rt.
            planned h sc reuse_table cluster_names name = Some (fst it, snd it, rt))"
      then show ?thesis by auto
    qed
  qed
  have d: "(\<forall>name \<in> set (name # names). planned h sc reuse_table cluster_names name = None) \<longrightarrow>
         cache' = cache \<and> cb' = cb"
    using rest(4) none1 by simp
  from a b c d show ?case by blast
qed

lemma plan_ops_props:
  assumes fv: "\<forall>n. FindVar h sc n \<noteq> None"
    and idx: "\<forall>n rn. map_of reuse_table n = Some rn \<longrightarrow> index_of cluster_names rn < length cb"
  shows "\<exists>cache' cb'.
      plan_ops h (Some sc) reuse_table cluster_names i ops (cache, cb) =
        Some (Inr (cache', cb')) \<and>
      length cb' = length cb \<and>
      (\<forall>j it. it \<in> set (entries_of j cache') \<longrightarrow>
         it \<in> set (entries_of j cache) \<or>
         (i \<le> j \<and> j < i + length ops \<and> (\<exists>name \<in> set (output_vars (ops ! (j - i))). \<exists>rt.
            planned h sc reuse_table cluster_names name = Some (fst it, snd it, rt)))) \<and>
      ((\<forall>op \<in> set ops. \<forall>name \<in> set (output_vars op).
          planned h sc reuse_table cluster_names name = None) \<longrightarrow>
         cache' = cache \<and> cb' = cb)"
  using idx
proof (induction ops arbitrary: i cache cb)
  case Nil
  then show ?case by simp
next
  case (Cons op ops)
  from plan_names_props [OF fv Cons.prems, of i "output_vars op" cache]
  obtain cache1 cb1 where first:
    "plan_names h (Some sc) reuse_table cluster_names i (output_vars op) (cache, cb) =
        Some (Inr (cache1, cb1))"
    "length cb1 = length cb"
    "\<forall>j it. it \<in> set (entries_of j cache1) \<longrightarrow>
         it \<in> set (entries_of j cache) \<or>
         (j = i \<and> (\<exists>name \<in> set (output_vars op). \<exists>rt.
            planned h sc reuse_table cluster_names name = Some (fst it, snd it, rt)))"
    "(\<forall>name \<in> set (output_vars op). planned h sc reuse_table cluster_names name = None) \<longrightarrow>
         cache1 = cache \<and> cb1 = cb"
    by blast
  from Cons.prems first(2) have "\<forall>n rn. map_of reuse_table n = Some rn \<longrightarrow>
      index_of cluster_names rn < length cb1"
    by simp
  from Cons.IH [OF this, of "Suc i" cache1] obtain cache' cb' where rest:
    "plan_ops h (Some sc) reuse_table cluster_names (Suc i) ops (cache1, cb1) =
        Some (Inr (cache', cb'))"
    "length cb' = length cb1"
    "\<forall>j it. it \<in> set (entries_of j cache') \<longrightarrow>
         it \<in> set (entries_of j cache1) \<or>
         (Suc i \<le> j \<and> j < Suc i + length ops \<and>
          (\<exists>name \<in> set (output_vars (ops ! (j - Suc i))). \<exists>rt.
            planned h sc reuse_table cluster_names name = Some (fst it, snd it, rt)))"
    "(\<forall>op \<in> set ops. \<forall>name \<in> set (output_vars op).
          planned h sc reuse_table cluster_names name = None) \<longrightarrow>
         cache' = cache1 \<and> cb' = cb1"
    by blast
  have a: "plan_ops h (Some sc) reuse_table cluster_names i (op # ops) (cache, cb) =
        Some (Inr (cache', cb'))"
    using first(1) rest(1) by simp
  have b: "length cb' = length cb" using first(2) rest(2) by simp
  have c: "\<forall>j it. it \<in> set (entries_of j cache') \<longrightarrow>
         it \<in> set (entries_of j cache) \<or>
         (i \<le> j \<and> j < i + length (op # ops) \<and>
          (\<exists>name \<in> set (output_vars ((op # ops) ! (j - i))). \<exists>rt.
            planned h sc reuse_table cluster_names name = Some (fst it, snd it, rt)))"
  proof (intro allI impI)
    fix j it assume "it \<in> set (entries_of j cache')"
    with rest(3) consider "it \<in> set (entries_of j cache1)"
      | "Suc i \<le> j \<and> j < Suc i + length ops \<and>
          (\<exists>name \<in> set (output_vars (ops ! (j - Suc i))). \<exists>rt.
            planned h sc reuse_table cluster_names name = Some (fst it, snd it, rt))"
      by blast
    then show "it \<in> set (entries_of j cache) \<or>
         (i \<le> j \<and> j < i + length (op # ops) \<and>
          (\<exists>name \<in> set (output_vars ((op # ops) ! (j - i))). \<exists>rt.
            planned h sc reuse_table cluster_names name = Some (fst it, snd it, rt)))"
    proof cases
      case 1
      with first(3) have "it \<in> set (entries_of j cache) \<or>
         (j = i \<and> (\<exists>name \<in> set (output_vars op). \<exists>rt.
            planned h sc reuse_table cluster_names name = Some (fst it, snd it, rt)))"
        by blast
      then show ?thesis by auto
    next
      case 2
      then have "j - i = Suc (j - Suc i)" by arith
      with 2 show ?thesis by auto
    qed
  qed
  have d: "(\<forall>op \<in> set (op # ops). \<forall>name \<in> set (output_vars op).
          planned h sc reuse_table cluster_names name = None) \<longrightarrow>
         cache' = cache \<and> cb' = cb"
    using first(4) rest(4) by simp
  from a b c d show ?case by blast
qed

lemma planned_skipped:
  assumes "map_of reuse_table name = Some reuse_name"
    and "FindVar h sc name = Some None \<or>
         (\<exists>v. FindVar h sc name = Some (Some v) \<and> \<not> is_dense (variables h v)) \<or>
         FindVar h sc reuse_name = Some None \<or>
         (\<exists>v. FindVar h sc reuse_name = Some (Some v) \<and> \<not> is_dense (variables h v))"
  shows "planned h sc reuse_table cluster_names name = None"
  using assms
  by (auto simp: planned_def split: option.splits)

lemma plan_name_skips:
  assumes "planned h sc reuse_table cluster_names name = None"
    and "\<forall>n. FindVar h sc n \<noteq> None"
  shows "plan_name h (Some sc) reuse_table cluster_names i name s = Some (Inr s)"
proof (cases "map_of reuse_table name")
  case None
  then show ?thesis by (simp add: plan_name_def)
next
  case (Some rn)
  from assms(2) obtain var reuse_var where
    fv: "FindVar h sc name = Some var" "FindVar h sc rn = Some reuse_var"
    by (metis not_None_eq)
  with assms(1) Some show ?thesis
    by (cases var; cases reuse_var) (auto simp: plan_name_def planned_def Let_def)
qed

lemma plan_name_records:
  assumes "plan_name h scope reuse_table cluster_names i name (cache, cb) = Some (Inr (cache', cb'))"
    and "(cache', cb') \<noteq> (cache, cb)"
  shows "\<exists>sc t rn rt. scope = Some sc \<and> map_of reuse_table name = Some rn \<and>
           FindVar h sc name = Some (Some t) \<and> is_dense (variables h t) \<and>
           FindVar h sc rn = Some (Some rt) \<and> is_dense (variables h rt) \<and>
           index_of cluster_names rn < length cb \<and>
           cache' = record_entry cache i t (index_of cluster_names rn) \<and>
           cb' = cb[index_of cluster_names rn := Some rt] \<and>
           cb' ! index_of cluster_names rn = Some rt"
  using assms
  by (auto simp: plan_name_def Let_def split: option.splits if_splits)

lemma FindVar_returns_all:
  "root_of h sc = Some r \<Longrightarrow> \<forall>n. FindVar h sc n \<noteq> None"
  using FindVar_returns by blast

text \<open>
  Claim C6.  With the scope set, a walk up its parent links that ends, and cluster names
  that enumerate the targets of the table, \<open>MakeReusePlan\<close> returns without a failure.
  Every entry it adds for an operator is the one \<open>planned\<close> for an output name of that
  operator: a key of the table whose variable and whose target variable both exist in
  the scope and are dense tensors.  A key whose variable does not exist, or whose
  variable or target variable is not a dense tensor, contributes nothing: the step for
  it returns the plan as it was, without a failure.
\<close>

theorem planning_skips_silently:
  assumes "m_scope e = Some sc" and "root_of h sc = Some r"
    and "enumerates cluster_names reuse_table"
  shows "\<exists>e'. MakeReusePlan cluster_names reuse_table h e = Some (Inr e') \<and>
     (\<forall>j it. it \<in> set (entries_of j (m_reuse_cache e')) \<longrightarrow>
         it \<in> set (entries_of j (m_reuse_cache e)) \<or>
         (j < length (m_ops e) \<and> (\<exists>name \<in> set (output_vars (m_ops e ! j)). \<exists>rt.
            planned h sc reuse_table cluster_names name = Some (fst it, snd it, rt)))) \<and>
     ((\<forall>op \<in> set (m_ops e). \<forall>name \<in> set (output_vars op).
          planned h sc reuse_table cluster_names name = None) \<longrightarrow>
         m_reuse_cache e' = m_reuse_cache e) \<and>
     (\<forall>name reuse_name i s.
         map_of reuse_table name = Some reuse_name \<and>
         (FindVar h sc name = Some None \<or>
          (\<exists>v. FindVar h sc name = Some (Some v) \<and> \<not> is_dense (variables h v)) \<or>
          FindVar h sc reuse_name = Some None \<or>
          (\<exists>v. FindVar h sc reuse_name = Some (Some v) \<and> \<not> is_dense (variables h v))) \<longrightarrow>
         planned h sc reuse_table cluster_names name = None \<and>
         plan_name h (Some sc) reuse_table cluster_names i name s = Some (Inr s))"
proof -
  have fv: "\<forall>n. FindVar h sc n \<noteq> None" by (rule FindVar_returns_all [OF assms(2)])
  let ?cb = "resize (length cluster_names) (m_cluster_buffer e)"
  have idx: "\<forall>n rn. map_of reuse_table n = Some rn \<longrightarrow> index_of cluster_names rn < length ?cb"
    using enumerates_target [OF assms(3)] by (simp add: length_resize)
  from plan_ops_props [OF fv idx, of 0 "m_ops e" "m_reuse_cache e"]
  obtain cache' cb' where p:
    "plan_ops h (Some sc) reuse_table cluster_names 0 (m_ops e) (m_reuse_cache e, ?cb) =
        Some (Inr (cache', cb'))"
    "\<forall>j it. it \<in> set (entries_of j cache') \<longrightarrow>
         it \<in> set (entries_of j (m_reuse_cache e)) \<or>
         (0 \<le> j \<and> j < 0 + length (m_ops e) \<and>
          (\<exists>name \<in> set (output_vars (m_ops e ! (j - 0))). \<exists>rt.
            planned h sc reuse_table cluster_names name = Some (fst it, snd it, rt)))"
    "(\<forall>op \<in> set (m_ops e). \<forall>name \<in> set (output_vars op).
          planned h sc reuse_table cluster_names name = None) \<longrightarrow>
         cache' = m_reuse_cache e \<and> cb' = ?cb"
    by blast
  define e' where "e' = e\<lparr>m_reuse_cache := cache', m_cluster_buffer := cb'\<rparr>"
  have a: "MakeReusePlan cluster_names reuse_table h e = Some (Inr e')"
    using p(1) assms(1) by (simp add: MakeReusePlan_def e'_def)
  have b: "\<forall>j it. it \<in> set (entries_of j (m_reuse_cache e')) \<longrightarrow>
         it \<in> set (entries_of j (m_reuse_cache e)) \<or>
         (j < length (m_ops e) \<and> (\<exists>name \<in> set (output_vars (m_ops e ! j)). \<exists>rt.
            planned h sc reuse_table cluster_names name = Some (fst it, snd it, rt)))"
    using p(2) by (simp add: e'_def)
  have c: "(\<forall>op \<in> set (m_ops e). \<forall>name \<in> set (output_vars op).
          planned h sc reuse_table cluster_names name = None) \<longrightarrow>
         m_reuse_cache e' = m_reuse_cache e"
    using p(3) by (simp add: e'_def)
  have d: "planned h sc reuse_table cluster_names name = None \<and>
         plan_name h (Some sc) reuse_table cluster_names i name s = Some (Inr s)"
    if "map_of reuse_table name = Some reuse_name \<and>
         (FindVar h sc name = Some None \<or>
          (\<exists>v. FindVar h sc name = Some (Some v) \<and> \<not> is_dense (variables h v)) \<or>
          FindVar h sc reuse_name = Some None \<or>
          (\<exists>v. FindVar h sc reuse_name = Some (Some v) \<and> \<not> is_dense (variables h v)))"
    for name reuse_name i s
  proof -
    from that have "planned h sc reuse_table cluster_names name = None"
      using planned_skipped [of reuse_table name reuse_name h sc cluster_names] by blast
    with plan_name_skips [OF this fv] show ?thesis by simp
  qed
  from a b c d show ?thesis by blast
qed

lemma chain_heap_root: "root_of chain_heap 0 = Some 0"
  by (simp add: root_of.simps chain_heap_def)

lemma skip_plan:
  "MakeReusePlan [''b''] skip_table chain_heap skip_executor =
     Some (Inr (skip_executor\<lparr>m_reuse_cache := [(0, [(1, 0)])], m_cluster_buffer := [Some 2]\<rparr>))"
  by (simp add: MakeReusePlan_def plan_name_def skip_table_def chain_heap_def
      skip_executor_def new_executor_def CreateOp_def resize_def FindVar.simps
      tensor_of_size_def record_entry_def)

text \<open>
  Of the outputs \<open>a\<close>, \<open>zz\<close> and \<open>u\<close>, mapped to \<open>b\<close>, only \<open>a\<close> is recorded: \<open>zz\<close> is not
  in the scope and \<open>u\<close> holds no dense tensor.
\<close>

theorem planning_skips_silently_witness:
  "MakeReusePlan [''b''] skip_table chain_heap skip_executor =
     Some (Inr (skip_executor\<lparr>m_reuse_cache := [(0, [(1, 0)])], m_cluster_buffer := [Some 2]\<rparr>)) \<and>
   FindVar chain_heap 0 ''zz'' = Some None \<and>
   plan_name chain_heap (Some 0) skip_table [''b''] 0 ''zz'' ([(0, [(1, 0)])], [Some 2]) =
     Some (Inr ([(0, [(1, 0)])], [Some 2])) \<and>
   FindVar chain_heap 0 ''u'' = Some (Some 5) \<and> \<not> is_dense (variables chain_heap 5) \<and>
   plan_name chain_heap (Some 0) skip_table [''b''] 0 ''u'' ([(0, [(1, 0)])], [Some 2]) =
     Some (Inr ([(0, [(1, 0)])], [Some 2]))"
proof -
  have sc: "m_scope skip_executor = Some 0"
    by (simp add: skip_executor_def new_executor_def)
  have en: "enumerates [''b''] skip_table"
    by (simp add: enumerates_def skip_table_def)
  have zz: "FindVar chain_heap 0 ''zz'' = Some None"
    by (simp add: FindVar.simps chain_heap_def)
  have u: "FindVar chain_heap 0 ''u'' = Some (Some 5)" "\<not> is_dense (variables chain_heap 5)"
    by (simp_all add: FindVar.simps chain_heap_def)
  have tzz: "map_of skip_table ''zz'' = Some ''b''" and tu: "map_of skip_table ''u'' = Some ''b''"
    by (simp_all add: skip_table_def)
  from planning_skips_silently [OF sc chain_heap_root en] have skip:
    "\<forall>name reuse_name i s.
         map_of skip_table name = Some reuse_name \<and>
         (FindVar chain_heap 0 name = Some None \<or>
          (\<exists>v. FindVar chain_heap 0 name = Some (Some v) \<and> \<not> is_dense (variables chain_heap v)) \<or>
          FindVar chain_heap 0 reuse_name = Some None \<or>
          (\<exists>v. FindVar chain_heap 0 reuse_name = Some (Some v) \<and>
               \<not> is_dense (variables chain_heap v))) \<longrightarrow>
         planned chain_heap 0 skip_table [''b''] name = None \<and>
         plan_name chain_heap (Some 0) skip_table [''b''] i name s = Some (Inr s)"
    by blast
  from skip tzz zz have a:
    "plan_name chain_heap (Some 0) skip_table [''b''] 0 ''zz'' ([(0, [(1, 0)])], [Some 2]) =
       Some (Inr ([(0, [(1, 0)])], [Some 2]))"
    by blast
  from skip tu u have b:
    "plan_name chain_heap (Some 0) skip_table [''b''] 0 ''u'' ([(0, [(1, 0)])], [Some 2]) =
       Some (Inr ([(0, [(1, 0)])], [Some 2]))"
    by blast
  from skip_plan zz u a b show ?thesis by blast
qed

text \<open>
  The claim C10 as it is stated fails for a plan that is not the first one on the
  executor: \<open>MakeReusePlan\<close> never removes an entry of \<open>reuse_cache_\<close>, and it resizes
  \<open>cluster_buffer_\<close> to the number of clusters of the new table.  After the plan for
  \<open>chain_table\<close>, which has two clusters, the plan for a table with the one cluster \<open>b\<close>
  returns with the array cut to one slot and the entry \<open>(d, 1)\<close> of the first plan
  still recorded for the operator at position 0: the run indexes the array out of range.
  A third plan, for a table with two clusters of which the second has no tensor
  produced by an operator, makes the array two slots long again, the second one null,
  and the run reads that null slot for the same entry.
\<close>

theorem stale_entries_counterexample:
  "enumerates [''b'', ''c''] chain_table \<and>
   MakeReusePlan [''b'', ''c''] chain_table chain_heap chain_executor =
     Some (Inr (chain_executor\<lparr>m_reuse_cache := chain_cache,
                  m_cluster_buffer := [Some 2, Some 3]\<rparr>)) \<and>
   enumerates [''b''] [(''a'', ''b'')] \<and>
   MakeReusePlan [''b''] [(''a'', ''b'')] chain_heap
       (chain_executor\<lparr>m_reuse_cache := chain_cache, m_cluster_buffer := [Some 2, Some 3]\<rparr>) =
     Some (Inr (chain_executor\<lparr>m_reuse_cache := chain_cache, m_cluster_buffer := [Some 2]\<rparr>)) \<and>
   entries_of 0 chain_cache = [(4, 1)] \<and>
   cluster_slot [Some 2] 1 = Inl OutOfRange \<and>
   fst (Run keep_op keep_hook
        \<lparr>rs_exec = chain_executor\<lparr>m_reuse_cache := chain_cache, m_cluster_buffer := [Some 2]\<rparr>,
         rs_heap = chain_heap, rs_trace = []\<rparr>) = Some OutOfRange \<and>
   enumerates [''b'', ''c''] [(''a'', ''b''), (''zz'', ''c'')] \<and>
   MakeReusePlan [''b'', ''c''] [(''a'', ''b''), (''zz'', ''c'')] chain_heap
       (chain_executor\<lparr>m_reuse_cache := chain_cache, m_cluster_buffer := [Some 2]\<rparr>) =
     Some (Inr (chain_executor\<lparr>m_reuse_cache := chain_cache,
                  m_cluster_buffer := [Some 2, None]\<rparr>)) \<and>
   cluster_slot [Some 2, None] 1 = Inl NullPointer \<and>
   fst (Run keep_op keep_hook
        \<lparr>rs_exec = chain_executor\<lparr>m_reuse_cache := chain_cache,
                    m_cluster_buffer := [Some 2, None]\<rparr>,
         rs_heap = chain_heap, rs_trace = []\<rparr>) = Some NullPointer"
proof -
  have en1: "enumerates [''b'', ''c''] chain_table"
    by (simp add: enumerates_def chain_table_def insert_commute)
  have en2: "enumerates [''b''] [(''a'', ''b'')]"
    by (simp add: enumerates_def)
  have en3: "enumerates [''b'', ''c''] [(''a'', ''b''), (''zz'', ''c'')]"
    by (simp add: enumerates_def insert_commute)
  have plan2: "MakeReusePlan [''b''] [(''a'', ''b'')] chain_heap
       (chain_executor\<lparr>m_reuse_cache := chain_cache, m_cluster_buffer := [Some 2, Some 3]\<rparr>) =
     Some (Inr (chain_executor\<lparr>m_reuse_cache := chain_cache, m_cluster_buffer := [Some 2]\<rparr>))"
    by (simp add: MakeReusePlan_def plan_name_def chain_heap_def
        chain_executor_def new_executor_def CreateOp_def resize_def FindVar.simps
        tensor_of_size_def record_entry_def chain_cache_def emplace_def)
  have plan3: "MakeReusePlan [''b'', ''c''] [(''a'', ''b''), (''zz'', ''c'')] chain_heap
       (chain_executor\<lparr>m_reuse_cache := chain_cache, m_cluster_buffer := [Some 2]\<rparr>) =
     Some (Inr (chain_executor\<lparr>m_reuse_cache := chain_cache,
                  m_cluster_buffer := [Some 2, None]\<rparr>))"
    by (simp add: MakeReusePlan_def plan_name_def chain_heap_def
        chain_executor_def new_executor_def CreateOp_def resize_def FindVar.simps
        tensor_of_size_def record_entry_def chain_cache_def emplace_def)
  have entries: "entries_of 0 chain_cache = [(4, 1)]"
    by (simp add: entries_of_def chain_cache_def)
  have slot2: "cluster_slot [Some 2] 1 = Inl OutOfRange"
    by (simp add: cluster_slot_def)
  have slot3: "cluster_slot [Some 2, None] 1 = Inl NullPointer"
    by (simp add: cluster_slot_def)
  have run2: "fst (Run keep_op keep_hook
        \<lparr>rs_exec = chain_executor\<lparr>m_reuse_cache := chain_cache, m_cluster_buffer := [Some 2]\<rparr>,
         rs_heap = chain_heap, rs_trace = []\<rparr>) = Some OutOfRange"
    by (simp add: Run_def run_one_def Let_def chain_executor_def new_executor_def CreateOp_def
        keep_op_def keep_hook_def update_buffers_def update_entry_def chain_cache_def
        tensor_at_def cluster_slot_def chain_heap_def tensor_of_size_def)
  have run3: "fst (Run keep_op keep_hook
        \<lparr>rs_exec = chain_executor\<lparr>m_reuse_cache := chain_cache,
                    m_cluster_buffer := [Some 2, None]\<rparr>,
         rs_heap = chain_heap, rs_trace = []\<rparr>) = Some NullPointer"
    by (simp add: Run_def run_one_def Let_def chain_executor_def new_executor_def CreateOp_def
        keep_op_def keep_hook_def update_buffers_def update_entry_def chain_cache_def
        tensor_at_def cluster_slot_def chain_heap_def tensor_of_size_def)
  from en1 chain_plan en2 plan2 entries slot2 run2 en3 plan3 slot3 run3 show ?thesis
    by (intro conjI)
qed

text \<open>
  Claim C10, amended.  With cluster names that enumerate the targets of the table, on an
  executor that has no recorded entries (no plan has been made on it before),
  \<open>MakeReusePlan\<close> never indexes \<open>cluster_buffer_\<close> out of range; a step that records an
  entry does so with a cluster id that is an index of the array and has just stored the
  tensor of the target, which is not null, in that slot; in the plan it returns every
  recorded entry has a cluster id that is an index of the array, of a slot that is set:
  reading the slot of a recorded entry gives a tensor, and the buffer update of \<open>Run\<close>
  on that plan, for any operator and any heap, fails neither on a null slot nor on an
  index out of range.  A run on that plan, with the scope set, never fails on a null
  slot or on an index out of range, and leaves every slot of a recorded entry set.
\<close>

theorem recorded_slots_are_set:
  assumes "enumerates cluster_names reuse_table"
    and "m_reuse_cache e = []"
  shows "MakeReusePlan cluster_names reuse_table h e \<noteq> Some (Inl OutOfRange) \<and>
     (\<forall>i name cache cb cache' cb'.
         plan_name h (m_scope e) reuse_table cluster_names i name (cache, cb) =
           Some (Inr (cache', cb')) \<and> (cache', cb') \<noteq> (cache, cb) \<longrightarrow>
         (\<exists>sc t rn rt. m_scope e = Some sc \<and> map_of reuse_table name = Some rn \<and>
            FindVar h sc name = Some (Some t) \<and> is_dense (variables h t) \<and>
            FindVar h sc rn = Some (Some rt) \<and> is_dense (variables h rt) \<and>
            index_of cluster_names rn < length cb \<and>
            cache' = record_entry cache i t (index_of cluster_names rn) \<and>
            cb' = cb[index_of cluster_names rn := Some rt] \<and>
            cb' ! index_of cluster_names rn = Some rt)) \<and>
     (\<forall>e'. MakeReusePlan cluster_names reuse_table h e = Some (Inr e') \<longrightarrow>
         length (m_cluster_buffer e') = length cluster_names \<and>
         slots_set (m_reuse_cache e') (m_cluster_buffer e') \<and>
         (\<forall>it \<in> set (all_entries (m_reuse_cache e')).
             \<exists>p. cluster_slot (m_cluster_buffer e') (snd it) = Inr p) \<and>
         (\<forall>i h2 err.
             update_buffers (m_reuse_cache e') i (m_cluster_buffer e', h2) = Inl err \<longrightarrow>
             err \<noteq> NullPointer \<and> err \<noteq> OutOfRange) \<and>
         (\<forall>ex ch h2 tr r s'.
             m_scope e' \<noteq> None \<and>
             Run ex ch \<lparr>rs_exec = e', rs_heap = h2, rs_trace = tr\<rparr> = (r, s') \<longrightarrow>
             r \<noteq> Some NullPointer \<and> r \<noteq> Some OutOfRange \<and>
             slots_set (m_reuse_cache (rs_exec s')) (m_cluster_buffer (rs_exec s'))))"
proof (intro conjI allI impI)
  let ?cb = "resize (length cluster_names) (m_cluster_buffer e)"
  have idx: "\<forall>n rn. map_of reuse_table n = Some rn \<longrightarrow> index_of cluster_names rn < length ?cb"
    using enumerates_target [OF assms(1)] by (simp add: length_resize)
  from plan_ops_in_range [OF idx, of h "m_scope e" 0 "m_ops e" "m_reuse_cache e"]
  show "MakeReusePlan cluster_names reuse_table h e \<noteq> Some (Inl OutOfRange)"
    by (auto simp: MakeReusePlan_def split: option.splits sum.splits)
next
  fix i name cache cb cache' cb'
  assume "plan_name h (m_scope e) reuse_table cluster_names i name (cache, cb) =
           Some (Inr (cache', cb')) \<and> (cache', cb') \<noteq> (cache, cb)"
  then show "\<exists>sc t rn rt. m_scope e = Some sc \<and> map_of reuse_table name = Some rn \<and>
            FindVar h sc name = Some (Some t) \<and> is_dense (variables h t) \<and>
            FindVar h sc rn = Some (Some rt) \<and> is_dense (variables h rt) \<and>
            index_of cluster_names rn < length cb \<and>
            cache' = record_entry cache i t (index_of cluster_names rn) \<and>
            cb' = cb[index_of cluster_names rn := Some rt] \<and>
            cb' ! index_of cluster_names rn = Some rt"
    using plan_name_records [of h "m_scope e" reuse_table cluster_names i name cache cb cache' cb']
    by blast
next
  fix e'
  assume plan: "MakeReusePlan cluster_names reuse_table h e = Some (Inr e')"
  let ?cb = "resize (length cluster_names) (m_cluster_buffer e)"
  have none: "slots_set (m_reuse_cache e) ?cb"
    by (simp add: assms(2) slots_set_def all_entries_def)
  from plan obtain cache' cb' where
    ops: "plan_ops h (m_scope e) reuse_table cluster_names 0 (m_ops e) (m_reuse_cache e, ?cb) =
        Some (Inr (cache', cb'))"
    and e': "e' = e\<lparr>m_reuse_cache := cache', m_cluster_buffer := cb'\<rparr>"
    by (auto simp: MakeReusePlan_def split: option.splits sum.splits)
  from plan_ops_slots [OF ops none] have
    slots: "slots_set cache' cb'" and len: "length cb' = length ?cb" by simp_all
  from len e' show "length (m_cluster_buffer e') = length cluster_names"
    by (simp add: length_resize)
  from slots e' show slots': "slots_set (m_reuse_cache e') (m_cluster_buffer e')" by simp
  show "\<forall>it \<in> set (all_entries (m_reuse_cache e')).
      \<exists>p. cluster_slot (m_cluster_buffer e') (snd it) = Inr p"
    using slots' unfolding slots_set_def cluster_slot_def by auto
  show "err \<noteq> NullPointer" "err \<noteq> OutOfRange"
    if "update_buffers (m_reuse_cache e') i (m_cluster_buffer e', h2) = Inl err" for i h2 err
    using update_buffers_safe [OF slots', of i h2] that by auto
  fix ex ch h2 tr r s'
  assume run: "m_scope e' \<noteq> None \<and>
             Run ex ch \<lparr>rs_exec = e', rs_heap = h2, rs_trace = tr\<rparr> = (r, s')"
  then have "run_ops ex ch 0 (m_ops e') \<lparr>rs_exec = e', rs_heap = h2, rs_trace = tr\<rparr> = (r, s')"
    by (simp add: Run_def)
  from run_ops_safe [OF this] slots' run
  have "r \<noteq> Some NullPointer \<and> r \<noteq> Some OutOfRange \<and>
         slots_set (m_reuse_cache (rs_exec s')) (m_cluster_buffer (rs_exec s'))"
    by simp
  then show "r \<noteq> Some NullPointer" "r \<noteq> Some OutOfRange"
    "slots_set (m_reuse_cache (rs_exec s')) (m_cluster_buffer (rs_exec s'))"
    by simp_all
qed

text \<open>
  The plan for \<open>chain_table\<close> on an executor without recorded entries: the three
  recorded entries name the slots 0 and 1 of an array of two set slots, and the run on
  the plan, in which the buffer update of each operator reads the slot of its entry,
  fails neither on a null slot nor on an index out of range.
\<close>

theorem recorded_slots_are_set_witness:
  "enumerates [''b'', ''c''] chain_table \<and>
   m_reuse_cache chain_executor = [] \<and>
   MakeReusePlan [''b'', ''c''] chain_table chain_heap chain_executor =
     Some (Inr (chain_executor\<lparr>m_reuse_cache := chain_cache,
                  m_cluster_buffer := [Some 2, Some 3]\<rparr>)) \<and>
   slots_set chain_cache [Some 2, Some 3] \<and>
   update_buffers chain_cache 0 ([Some 2, Some 3], chain_heap) \<noteq> Inl NullPointer \<and>
   update_buffers chain_cache 0 ([Some 2, Some 3], chain_heap) \<noteq> Inl OutOfRange \<and>
   fst (Run keep_op keep_hook
        \<lparr>rs_exec = chain_executor\<lparr>m_reuse_cache := chain_cache,
                  m_cluster_buffer := [Some 2, Some 3]\<rparr>,
         rs_heap = chain_heap, rs_trace = []\<rparr>) \<noteq> Some NullPointer \<and>
   fst (Run keep_op keep_hook
        \<lparr>rs_exec = chain_executor\<lparr>m_reuse_cache := chain_cache,
                  m_cluster_buffer := [Some 2, Some 3]\<rparr>,
         rs_heap = chain_heap, rs_trace = []\<rparr>) \<noteq> Some OutOfRange"
proof -
  have en: "enumerates [''b'', ''c''] chain_table"
    by (simp add: enumerates_def chain_table_def insert_commute)
  have fresh: "m_reuse_cache chain_executor = []"
    by (simp add: chain_executor_def new_executor_def)
  let ?e' = "chain_executor\<lparr>m_reuse_cache := chain_cache, m_cluster_buffer := [Some 2, Some 3]\<rparr>"
  let ?s = "\<lparr>rs_exec = ?e', rs_heap = chain_heap, rs_trace = []\<rparr>"
  let ?run = "Run keep_op keep_hook ?s"
  from recorded_slots_are_set [OF en fresh, of chain_heap] chain_plan have after:
    "slots_set (m_reuse_cache ?e') (m_cluster_buffer ?e')"
    "\<forall>i h2 err.
             update_buffers (m_reuse_cache ?e') i (m_cluster_buffer ?e', h2) = Inl err \<longrightarrow>
             err \<noteq> NullPointer \<and> err \<noteq> OutOfRange"
    "\<forall>ex ch h2 tr r s'.
             m_scope ?e' \<noteq> None \<and>
             Run ex ch \<lparr>rs_exec = ?e', rs_heap = h2, rs_trace = tr\<rparr> = (r, s') \<longrightarrow>
             r \<noteq> Some NullPointer \<and> r \<noteq> Some OutOfRange \<and>
             slots_set (m_reuse_cache (rs_exec s')) (m_cluster_buffer (rs_exec s'))"
    by blast+
  from after(1) have slots: "slots_set chain_cache [Some 2, Some 3]" by simp
  have scope: "m_scope ?e' \<noteq> None"
    by (simp add: chain_executor_def new_executor_def)
  from after(2) have upd:
    "update_buffers chain_cache 0 ([Some 2, Some 3], chain_heap) \<noteq> Inl NullPointer \<and>
     update_buffers chain_cache 0 ([Some 2, Some 3], chain_heap) \<noteq> Inl OutOfRange"
    by auto
  have "?run = (fst ?run, snd ?run)" by simp
  with after(3) scope have "fst ?run \<noteq> Some NullPointer \<and> fst ?run \<noteq> Some OutOfRange" by blast
  with en fresh chain_plan slots upd show ?thesis by blast
qed

text \<open>
  The claim C8 as it is stated fails: with no scope the failure is of the kind
  \<open>PreconditionNotMet\<close>, not of the not-found kind.
\<close>

theorem FindTensor_uninitialized_scope_counterexample:
  "FindTensor demo_get_failure new_executor chain_heap ''a'' =
     Some (Inl (PreconditionNotMet ''Need to init scope in NaiveExecutor firstly.'')) \<and>
   \<not> is_not_found (PreconditionNotMet ''Need to init scope in NaiveExecutor firstly.'')"
  by (simp add: FindTensor_def new_executor_def)

text \<open>
  Claim C8, amended.  \<open>FindTensor\<close> fails with the precondition failure "Need to init
  scope in NaiveExecutor firstly." when the scope of the executor is not set; it fails
  with a failure of the not-found kind that carries the requested name when the lookup
  finds no variable of that name; and it returns the tensor of the variable the lookup
  finds when that variable holds a dense tensor.
\<close>

theorem FindTensor_results:
  "(m_scope e = None \<longrightarrow>
      FindTensor get_failure e h name =
        Some (Inl (PreconditionNotMet ''Need to init scope in NaiveExecutor firstly.''))) \<and>
   (m_scope e = Some sc \<and> FindVar h sc name = Some None \<longrightarrow>
      FindTensor get_failure e h name =
        Some (Inl (NotFound (''No variable ['' @ name @ ''] in current scope.''))) \<and>
      is_not_found (NotFound (''No variable ['' @ name @ ''] in current scope.''))) \<and>
   (m_scope e = Some sc \<and> FindVar h sc name = Some (Some var) \<and>
    variables h var = DenseTensor t \<longrightarrow>
      FindTensor get_failure e h name = Some (Inr var))"
  by (simp add: FindTensor_def)

text \<open>
  A new executor, and the names \<open>zz\<close> and \<open>a\<close> in the scope of \<open>chain_heap\<close>.
\<close>

theorem FindTensor_results_witness:
  "FindTensor demo_get_failure new_executor chain_heap ''a'' =
     Some (Inl (PreconditionNotMet ''Need to init scope in NaiveExecutor firstly.'')) \<and>
   FindTensor demo_get_failure chain_executor chain_heap ''zz'' =
     Some (Inl (NotFound ''No variable [zz] in current scope.'')) \<and>
   FindTensor demo_get_failure chain_executor chain_heap ''a'' = Some (Inr 1) \<and>
   variables chain_heap 1 = tensor_of_size 1 5"
proof -
  have none: "m_scope new_executor = None" by (simp add: new_executor_def)
  have sc: "m_scope chain_executor = Some 0"
    by (simp add: chain_executor_def new_executor_def)
  have zz: "FindVar chain_heap 0 ''zz'' = Some None"
    by (simp add: FindVar.simps chain_heap_def)
  have a: "FindVar chain_heap 0 ''a'' = Some (Some 1)"
    by (simp add: FindVar.simps chain_heap_def)
  have va: "variables chain_heap 1 = tensor_of_size 1 5"
    by (simp add: chain_heap_def)
  from FindTensor_results [where e = new_executor and get_failure = demo_get_failure
      and h = chain_heap and name = "''a''"] none
  have r1: "FindTensor demo_get_failure new_executor chain_heap ''a'' =
     Some (Inl (PreconditionNotMet ''Need to init scope in NaiveExecutor firstly.''))"
    by blast
  from FindTensor_results [where e = chain_executor and get_failure = demo_get_failure
      and h = chain_heap and name = "''zz''" and sc = 0] sc zz
  have r2: "FindTensor demo_get_failure chain_executor chain_heap ''zz'' =
     Some (Inl (NotFound ''No variable [zz] in current scope.''))"
    by simp
  from FindTensor_results [where e = chain_executor and get_failure = demo_get_failure
      and h = chain_heap and name = "''a''" and sc = 0 and var = 1
      and t = "\<lparr>holder = Some \<lparr>alloc_id = 1, capacity = 5\<rparr>, dims = [5]\<rparr>"] sc a va
  have r3: "FindTensor demo_get_failure chain_executor chain_heap ''a'' = Some (Inr 1)"
    by (simp add: tensor_of_size_def)
  from r1 r2 r3 va show ?thesis by simp
qed

end
